(* ===== verification/Prelude.thy ===== *)
theory Prelude
  imports Main "HOL-Library.Word" "HOL-Library.Multiset" "HOL-Library.Sublist"
begin

text \<open>
  Shared vocabulary of the development.  Go strings are byte sequences, so a Go
  \<open>string\<close> is an Isabelle \<open>char list\<close> (an Isabelle \<open>char\<close> is one byte); a Go
  \<open>rune\<close> is a Unicode code point, kept here as a \<open>nat\<close>.  The theory also holds the
  generic list and option lemmas the component theories share, and the named
  collection \<open>go_eval\<close> of equations that evaluate the model on concrete inputs.
\<close>

type_synonym bytes = "char list"
type_synonym rune = nat

named_theorems go_eval "equations that evaluate the model on concrete inputs"

abbreviation byte_val :: "char \<Rightarrow> nat" where
  "byte_val c \<equiv> of_char c"

text \<open>Go's \<open>for i, v := range xs\<close> visits the pairs of \<open>enumerate 0 xs\<close> in order.\<close>

abbreviation indexed :: "'a list \<Rightarrow> (nat \<times> 'a) list" where
  "indexed xs \<equiv> enumerate 0 xs"

text \<open>
  Fallible code returns \<open>'e + 'a\<close>, with \<open>Inl\<close> the error.  \<open>bind_res\<close> is Go's
  \<open>if err != nil { return err }\<close> between two calls.
\<close>

definition bind_res :: "'e + 'a \<Rightarrow> ('a \<Rightarrow> 'e + 'b) \<Rightarrow> 'e + 'b" where
  "bind_res r f = (case r of Inl e \<Rightarrow> Inl e | Inr a \<Rightarrow> f a)"

text \<open>A loop whose body may fail: the first failure ends it.\<close>

fun fold_res :: "('s \<Rightarrow> 'a \<Rightarrow> 'e + 's) \<Rightarrow> 'a list \<Rightarrow> 's \<Rightarrow> 'e + 's" where
  "fold_res f [] s = Inr s"
| "fold_res f (x # xs) s = bind_res (f s x) (fold_res f xs)"

subsection \<open>Lists\<close>

lemma take_is_prefix [simp]: "prefix (take n xs) xs"
  by (metis append_take_drop_id prefixI)

lemma prefix_of_prefix_take:
  assumes "prefix p (take n xs)"
  shows "prefix p xs"
  using assms prefix_order.trans take_is_prefix by blast

lemma drop_length_suffix:
  assumes "length s \<le> length t"
  shows "drop (length t - length s) t = s \<longleftrightarrow> suffix s t"
proof
  assume "drop (length t - length s) t = s"
  then show "suffix s t" by (metis suffix_drop)
next
  assume "suffix s t"
  then obtain zs where "t = zs @ s" by (auto simp: suffix_def)
  then show "drop (length t - length s) t = s" by simp
qed

lemma nth_in_set_drop:
  assumes "i < j" and "j < length xs"
  shows "xs ! j \<in> set (drop (Suc i) xs)"
proof -
  have "drop (Suc i) xs ! (j - Suc i) = xs ! j" using assms by simp
  moreover have "j - Suc i < length (drop (Suc i) xs)" using assms by simp
  ultimately show ?thesis by (metis nth_mem)
qed

lemma nth_enumerate_snd:
  "i < length xs \<Longrightarrow> enumerate 0 xs ! i = (i, xs ! i)"
  by (simp add: nth_enumerate_eq)

lemma set_enumerate_iff:
  "(i, x) \<in> set (enumerate 0 xs) \<longleftrightarrow> i < length xs \<and> xs ! i = x"
  by (auto simp: in_set_enumerate_eq)

lemma ran_upd_subset: "ran (m(k \<mapsto> v)) \<subseteq> insert v (ran m)"
  by (auto simp: ran_def)

subsection \<open>Sums as results\<close>

lemma bind_res_simps [simp]:
  "bind_res (Inl e) f = Inl e"
  "bind_res (Inr a) f = f a"
  by (simp_all add: bind_res_def)

lemma bind_res_eq_Inr [simp]:
  "bind_res r f = Inr b \<longleftrightarrow> (\<exists>a. r = Inr a \<and> f a = Inr b)"
  by (cases r) auto

lemma bind_res_eq_Inl:
  "bind_res r f = Inl e \<longleftrightarrow> r = Inl e \<or> (\<exists>a. r = Inr a \<and> f a = Inl e)"
  by (cases r) auto

lemma fold_res_Inr_cong:
  assumes "\<And>s x t. x \<in> set xs \<Longrightarrow> f s x = Inr t \<longleftrightarrow> g s x = Inr t"
  shows "fold_res f xs s = Inr t \<longleftrightarrow> fold_res g xs s = Inr t"
  using assms
proof (induction xs arbitrary: s)
  case (Cons x xs)
  have step: "f s x = Inr a \<longleftrightarrow> g s x = Inr a" for a using Cons.prems by simp
  have rest: "fold_res f xs a = Inr t \<longleftrightarrow> fold_res g xs a = Inr t" for a
    using Cons.prems by (intro Cons.IH) simp
  show ?case by (simp only: fold_res.simps bind_res_eq_Inr step rest)
qed simp

lemma fold_res_invariant:
  assumes "fold_res f xs s = Inr t" and "P s"
    and "\<And>s x t. P s \<Longrightarrow> x \<in> set xs \<Longrightarrow> f s x = Inr t \<Longrightarrow> P t"
  shows "P t"
  using assms
proof (induction xs arbitrary: s)
  case Nil
  then show ?case by simp
next
  case (Cons x xs)
  from Cons.prems(1) obtain a where fa: "f s x = Inr a" and rest: "fold_res f xs a = Inr t"
    by (cases "f s x") simp_all
  have "P a" using Cons.prems(3) [OF Cons.prems(2) _ fa] by simp
  moreover have "\<And>s y t. P s \<Longrightarrow> y \<in> set xs \<Longrightarrow> f s y = Inr t \<Longrightarrow> P t"
    using Cons.prems(3) by (meson list.set_intros(2))
  ultimately show ?case using rest by (intro Cons.IH)
qed

lemma fold_res_Inl:
  "fold_res f xs s = Inl e \<Longrightarrow> \<exists>x\<in>set xs. \<exists>s'. f s' x = Inl e"
  by (induction xs arbitrary: s) (auto simp: bind_res_eq_Inl)

end
