(* ===== verification/GoStrings.thy ===== *)
theory GoStrings
  imports Prelude
begin

text \<open>
  The parts of Go's standard library that the converter's header matching and
  cell coercion call: UTF-8 decoding and encoding (package \<open>unicode/utf8\<close>),
  \<open>unicode.IsSpace\<close> and \<open>unicode.ToLower\<close>, and \<open>strings.TrimSpace\<close>,
  \<open>strings.ToLower\<close>, \<open>strings.EqualFold\<close> and \<open>strings.HasSuffix\<close>.  They are
  library code, not code of the repository, and are modelled from the Go
  documentation and the behaviour of its implementation: bytes are decoded into
  runes exactly as \<open>utf8.DecodeRuneInString\<close> does (an invalid or truncated
  sequence decodes to \<open>RuneError\<close>, U+FFFD, of width 1).  Case mapping and
  simple case folding are modelled for ASCII and Latin-1 and for the runes
  outside Latin-1 whose simple folding orbit meets it (U+0178, U+017F, U+039C,
  U+03BC, U+1E9E, U+212A, U+212B); every other rune is treated as caseless.
\<close>

section \<open>UTF-8\<close>

definition rune_error :: rune where
  "rune_error = 0xFFFD"

definition rune_self :: nat where
  "rune_self = 0x80"

definition max_rune :: rune where
  "max_rune = 0x10FFFF"

definition valid_rune :: "rune \<Rightarrow> bool" where
  "valid_rune r \<longleftrightarrow> (r < 0xD800 \<or> 0xDFFF < r) \<and> r \<le> max_rune"

definition is_cont :: "char \<Rightarrow> bool" where
  "is_cont c \<longleftrightarrow> 0x80 \<le> byte_val c \<and> byte_val c \<le> 0xBF"

text \<open>
  \<open>lead_class b\<close> is the row of Go's \<open>first\<close> and \<open>acceptRanges\<close> tables for a
  leading byte \<open>b \<ge> 0x80\<close>: the sequence size and the accepted range of the second
  byte; \<open>None\<close> for a byte that cannot start a sequence (0x80--0xC1, 0xF5--0xFF).
\<close>

definition lead_class :: "nat \<Rightarrow> (nat \<times> nat \<times> nat) option" where
  "lead_class b =
     (if b < 0xC2 then None
      else if b < 0xE0 then Some (2, 0x80, 0xBF)
      else if b = 0xE0 then Some (3, 0xA0, 0xBF)
      else if b = 0xED then Some (3, 0x80, 0x9F)
      else if b < 0xF0 then Some (3, 0x80, 0xBF)
      else if b = 0xF0 then Some (4, 0x90, 0xBF)
      else if b < 0xF4 then Some (4, 0x80, 0xBF)
      else if b = 0xF4 then Some (4, 0x80, 0x8F)
      else None)"

text \<open>\<open>utf8.DecodeRuneInString\<close>: the first rune of a byte string and its width.\<close>

fun decode_rune :: "bytes \<Rightarrow> rune \<times> nat" where
  "decode_rune [] = (rune_error, 0)"
| "decode_rune (c # cs) =
     (let b0 = byte_val c in
      if b0 < rune_self then (b0, 1)
      else case lead_class b0 of
        None \<Rightarrow> (rune_error, 1)
      | Some (sz, lo, hi) \<Rightarrow>
          if length cs < sz - 1 then (rune_error, 1)
          else if byte_val (cs ! 0) < lo \<or> hi < byte_val (cs ! 0) then (rune_error, 1)
          else if sz = 2 then ((b0 - 0xC0) * 64 + (byte_val (cs ! 0) - 0x80), 2)
          else if \<not> is_cont (cs ! 1) then (rune_error, 1)
          else if sz = 3 then
            ((b0 - 0xE0) * 4096 + (byte_val (cs ! 0) - 0x80) * 64 + (byte_val (cs ! 1) - 0x80), 3)
          else if \<not> is_cont (cs ! 2) then (rune_error, 1)
          else ((b0 - 0xF0) * 262144 + (byte_val (cs ! 0) - 0x80) * 4096
                + (byte_val (cs ! 1) - 0x80) * 64 + (byte_val (cs ! 2) - 0x80), 4))"

text \<open>\<open>utf8.EncodeRune\<close>: surrogates and values past \<open>MaxRune\<close> encode \<open>RuneError\<close>.\<close>

definition encode_rune :: "rune \<Rightarrow> bytes" where
  "encode_rune r =
     (if r < 0x80 then [char_of r]
      else if r < 0x800 then [char_of (0xC0 + r div 64), char_of (0x80 + r mod 64)]
      else if r < 0xD800 \<or> (0xDFFF < r \<and> r < 0x10000) then
        [char_of (0xE0 + r div 4096), char_of (0x80 + r div 64 mod 64), char_of (0x80 + r mod 64)]
      else if 0x10000 \<le> r \<and> r \<le> max_rune then
        [char_of (0xF0 + r div 262144), char_of (0x80 + r div 4096 mod 64),
         char_of (0x80 + r div 64 mod 64), char_of (0x80 + r mod 64)]
      else [CHR 0xEF, CHR 0xBF, CHR 0xBD])"

text \<open>\<open>for _, r := range s\<close>: the runes of a byte string.\<close>

function utf8_runes :: "bytes \<Rightarrow> rune list" where
  "utf8_runes [] = []"
| "utf8_runes (c # cs) =
     (let (r, w) = decode_rune (c # cs) in r # utf8_runes (drop w (c # cs)))"
  by pat_completeness auto
termination
proof (relation "measure length")
  fix c :: char and cs :: bytes and x :: "rune \<times> nat" and r w
  assume "x = decode_rune (c # cs)" and "(r, w) = x"
  then have "decode_rune (c # cs) = (r, w)" by simp
  then have "0 < w" by (auto simp: Let_def split: if_splits option.splits prod.splits)
  then show "(drop w (c # cs), c # cs) \<in> measure length" by simp
qed simp

text \<open>\<open>utf8.ValidString\<close>: no step of the decoding is a one-byte \<open>RuneError\<close>.\<close>

function valid_utf8 :: "bytes \<Rightarrow> bool" where
  "valid_utf8 [] = True"
| "valid_utf8 (c # cs) =
     (let (r, w) = decode_rune (c # cs) in \<not> (r = rune_error \<and> w = 1) \<and> valid_utf8 (drop w (c # cs)))"
  by pat_completeness auto
termination
proof (relation "measure length")
  fix c :: char and cs :: bytes and x :: "rune \<times> nat" and r w
  assume "x = decode_rune (c # cs)" and "(r, w) = x"
  then have "decode_rune (c # cs) = (r, w)" by simp
  then have "0 < w" by (auto simp: Let_def split: if_splits option.splits prod.splits)
  then show "(drop w (c # cs), c # cs) \<in> measure length" by simp
qed simp

section \<open>Package unicode\<close>

text \<open>\<open>unicode.IsSpace\<close>: the Latin-1 spaces and the \<open>White_Space\<close> property.\<close>

definition is_space :: "rune \<Rightarrow> bool" where
  "is_space r \<longleftrightarrow>
     (if r \<le> 0xFF then r \<in> {0x09, 0x0A, 0x0B, 0x0C, 0x0D, 0x20, 0x85, 0xA0}
      else r = 0x1680 \<or> (0x2000 \<le> r \<and> r \<le> 0x200A) \<or> r = 0x2028 \<or> r = 0x2029
           \<or> r = 0x202F \<or> r = 0x205F \<or> r = 0x3000)"

text \<open>\<open>unicode.ToLower\<close>, for the modelled blocks.\<close>

definition rune_to_lower :: "rune \<Rightarrow> rune" where
  "rune_to_lower r =
     (if 0x41 \<le> r \<and> r \<le> 0x5A then r + 32
      else if 0xC0 \<le> r \<and> r \<le> 0xDE \<and> r \<noteq> 0xD7 then r + 32
      else if r = 0x178 then 0xFF
      else if r = 0x39C then 0x3BC
      else if r = 0x1E9E then 0xDF
      else if r = 0x212A then 0x6B
      else if r = 0x212B then 0xE5
      else r)"

text \<open>
  \<open>fold_key r\<close> names the orbit of \<open>r\<close> under \<open>unicode.SimpleFold\<close>; two runes
  are equal under simple case folding exactly when their keys are equal.
\<close>

definition fold_key :: "rune \<Rightarrow> rune" where
  "fold_key r =
     (if r = 0x17F then 0x73
      else if r = 0xB5 then 0x3BC
      else rune_to_lower r)"

section \<open>Package strings\<close>

text \<open>\<open>strings.HasSuffix\<close>.\<close>

definition has_suffix :: "bytes \<Rightarrow> bytes \<Rightarrow> bool" where
  "has_suffix s suf \<longleftrightarrow> length s \<ge> length suf \<and> drop (length s - length suf) s = suf"

definition ascii_lower :: "char \<Rightarrow> char" where
  "ascii_lower c = (if 0x41 \<le> byte_val c \<and> byte_val c \<le> 0x5A then char_of (byte_val c + 32) else c)"

text \<open>\<open>strings.ToLower\<close>: the ASCII fast path, else \<open>strings.Map(unicode.ToLower, s)\<close>.\<close>

definition to_lower :: "bytes \<Rightarrow> bytes" where
  "to_lower s =
     (if list_all (\<lambda>c. byte_val c < rune_self) s then map ascii_lower s
      else concat (map (encode_rune \<circ> rune_to_lower) (utf8_runes s)))"

text \<open>\<open>strings.EqualFold\<close>: equal rune for rune under simple case folding.\<close>

definition equal_fold :: "bytes \<Rightarrow> bytes \<Rightarrow> bool" where
  "equal_fold s t \<longleftrightarrow> list_all2 (\<lambda>a b. fold_key a = fold_key b) (utf8_runes s) (utf8_runes t)"

text \<open>
  \<open>strings.TrimSpace\<close>.  The left end is trimmed as \<open>TrimLeftFunc\<close> does, by
  decoding runes.  At the right end \<open>utf8.DecodeLastRuneInString\<close> returns a space
  rune exactly when the string ends with that rune's UTF-8 encoding (every
  encoding of a space starts with a non-continuation byte), so the trailing
  space runes are dropped by their encodings.
\<close>

function trim_left_space :: "bytes \<Rightarrow> bytes" where
  "trim_left_space [] = []"
| "trim_left_space (c # cs) =
     (let (r, w) = decode_rune (c # cs) in
      if is_space r then trim_left_space (drop w (c # cs)) else c # cs)"
  by pat_completeness auto
termination
proof (relation "measure length")
  fix c :: char and cs :: bytes and x :: "rune \<times> nat" and r w
  assume "x = decode_rune (c # cs)" and "(r, w) = x"
  then have "decode_rune (c # cs) = (r, w)" by simp
  then have "0 < w" by (auto simp: Let_def split: if_splits option.splits prod.splits)
  then show "(drop w (c # cs), c # cs) \<in> measure length" by simp
qed simp

definition space_runes :: "rune list" where
  "space_runes = [0x09, 0x0A, 0x0B, 0x0C, 0x0D, 0x20, 0x85, 0xA0, 0x1680,
     0x2000, 0x2001, 0x2002, 0x2003, 0x2004, 0x2005, 0x2006, 0x2007, 0x2008, 0x2009, 0x200A,
     0x2028, 0x2029, 0x202F, 0x205F, 0x3000]"

definition space_encodings :: "bytes list" where
  "space_encodings = map encode_rune space_runes"

function trim_right_space :: "bytes \<Rightarrow> bytes" where
  "trim_right_space [] = []"
| "trim_right_space (c # cs) =
     (case find (has_suffix (c # cs)) space_encodings of
        None \<Rightarrow> c # cs
      | Some e \<Rightarrow> trim_right_space (take (length (c # cs) - length e) (c # cs)))"
  by pat_completeness auto
termination
proof (relation "measure length")
  fix c :: char and cs e :: bytes
  assume "find (has_suffix (c # cs)) space_encodings = Some e"
  then have "has_suffix (c # cs) e" and "e \<in> set space_encodings" by (auto simp: find_Some_iff)
  then have "length e \<le> length (c # cs)" and "0 < length e"
    by (auto simp: has_suffix_def space_encodings_def encode_rune_def)
  then have "length (c # cs) - length e < length (c # cs)" by linarith
  then show "(take (length (c # cs) - length e) (c # cs), c # cs) \<in> measure length"
    by simp
qed simp

definition trim_space :: "bytes \<Rightarrow> bytes" where
  "trim_space s = trim_right_space (trim_left_space s)"

text \<open>
  A string is \<open>trimmed\<close> when neither end is white space as Go reads it: its
  first rune, decoded as \<open>utf8.DecodeRuneInString\<close> does, is not a space, and it
  does not end with the encoding of a space (the last rune that
  \<open>utf8.DecodeLastRuneInString\<close> reads).
\<close>

definition trimmed :: "bytes \<Rightarrow> bool" where
  "trimmed s \<longleftrightarrow> \<not> is_space (fst (decode_rune s)) \<and> \<not> list_ex (has_suffix s) space_encodings"

section \<open>Properties\<close>

lemmas [go_eval] = rune_self_def rune_error_def max_rune_def is_cont_def lead_class_def
  is_space_def rune_to_lower_def fold_key_def ascii_lower_def to_lower_def
  equal_fold_def trim_space_def has_suffix_def

lemma space_encodings_eq [go_eval]:
  "space_encodings =
     [[CHR 0x09], [CHR 0x0A], [CHR 0x0B], [CHR 0x0C], [CHR 0x0D], [CHR 0x20],
      [CHR 0xC2, CHR 0x85], [CHR 0xC2, CHR 0xA0], [CHR 0xE1, CHR 0x9A, CHR 0x80],
      [CHR 0xE2, CHR 0x80, CHR 0x80], [CHR 0xE2, CHR 0x80, CHR 0x81], [CHR 0xE2, CHR 0x80, CHR 0x82],
      [CHR 0xE2, CHR 0x80, CHR 0x83], [CHR 0xE2, CHR 0x80, CHR 0x84], [CHR 0xE2, CHR 0x80, CHR 0x85],
      [CHR 0xE2, CHR 0x80, CHR 0x86], [CHR 0xE2, CHR 0x80, CHR 0x87], [CHR 0xE2, CHR 0x80, CHR 0x88],
      [CHR 0xE2, CHR 0x80, CHR 0x89], [CHR 0xE2, CHR 0x80, CHR 0x8A], [CHR 0xE2, CHR 0x80, CHR 0xA8],
      [CHR 0xE2, CHR 0x80, CHR 0xA9], [CHR 0xE2, CHR 0x80, CHR 0xAF], [CHR 0xE2, CHR 0x81, CHR 0x9F],
      [CHR 0xE3, CHR 0x80, CHR 0x80]]"
  by (simp add: space_encodings_def space_runes_def encode_rune_def max_rune_def char_of_def bit_simps)


lemma lead_class_size:
  "lead_class b = Some (sz, lo, hi) \<Longrightarrow> 2 \<le> sz \<and> sz \<le> 4"
  by (auto simp: lead_class_def split: if_splits)

lemma decode_rune_width:
  "decode_rune (c # cs) = (r, w) \<Longrightarrow> 0 < w \<and> w \<le> Suc (length cs)"
  by (auto simp: Let_def split: if_splits option.splits prod.splits dest!: lead_class_size
      simp flip: length_greater_0_conv)

subsection \<open>TrimSpace\<close>

text \<open>
  Cutting bytes off the end of a string never turns its first rune into a space:
  a truncated sequence decodes to \<open>RuneError\<close>.  \<open>TrimSpace\<close> therefore leaves
  a string with white space at neither end.
\<close>

lemma rune_error_not_space [simp]: "\<not> is_space rune_error"
  by (simp add: is_space_def rune_error_def)

lemma decode_rune_take:
  "decode_rune (c # take m cs) = decode_rune (c # cs) \<or> decode_rune (c # take m cs) = (rune_error, 1)"
proof -
  have "take m cs ! i = cs ! i" if "lead_class (byte_val c) = Some (sz, lo, hi)"
    and "\<not> length (take m cs) < sz - 1" and "i < sz - 1" for sz lo hi i
    using that by simp
  then show ?thesis
    by (auto simp: Let_def split: option.splits if_splits dest: lead_class_size)
qed

lemma decode_rune_prefix_not_space:
  assumes "\<not> is_space (fst (decode_rune s))" and "prefix p s"
  shows "\<not> is_space (fst (decode_rune p))"
proof (cases p)
  case (Cons c cs')
  then obtain cs where s: "s = c # cs" and "cs' = take (length cs') cs"
    using assms(2) by (cases s) (auto simp: prefix_def)
  then show ?thesis using assms(1) decode_rune_take [of c "length cs'" cs] Cons by auto
qed simp

lemma trim_left_space_ascii_space:
  "c \<in> {CHR '' '', CHR 0x09, CHR 0x0A, CHR 0x0B, CHR 0x0C, CHR 0x0D} \<Longrightarrow>
     trim_left_space (c # cs) = trim_left_space cs"
  by (auto simp: is_space_def rune_self_def)

lemma trim_left_space_first: "\<not> is_space (fst (decode_rune (trim_left_space s)))"
  by (induction s rule: trim_left_space.induct) (auto split: prod.splits)

lemma space_encodings_nonempty: "e \<in> set space_encodings \<Longrightarrow> e \<noteq> []"
  by (auto simp: space_encodings_def encode_rune_def)

lemma trim_right_space_no_suffix: "\<not> list_ex (has_suffix (trim_right_space s)) space_encodings"
proof (induction s rule: trim_right_space.induct)
  case 1
  then show ?case by (auto simp: list_ex_iff has_suffix_def dest: space_encodings_nonempty)
next
  case (2 c cs)
  then show ?case by (auto simp: find_None_iff list_ex_iff split: option.splits)
qed

lemma trim_right_space_prefix: "prefix (trim_right_space s) s"
proof (induction s rule: trim_right_space.induct)
  case (2 c cs)
  then show ?case by (auto split: option.splits intro: prefix_of_prefix_take)
qed simp

lemma trim_space_trimmed: "trimmed (trim_space s)"
  unfolding trimmed_def trim_space_def
  using trim_right_space_no_suffix
    decode_rune_prefix_not_space [OF trim_left_space_first trim_right_space_prefix] by blast

lemma trimmed_Nil [simp]: "trimmed []"
  by (auto simp: trimmed_def list_ex_iff has_suffix_def dest: space_encodings_nonempty)

subsection \<open>Decoding concatenations\<close>

text \<open>
  An ASCII byte never continues a sequence, so a string followed by one decodes
  to the runes of its two parts, and an ASCII prefix decodes byte by byte.
\<close>

lemma decode_rune_append_ascii:
  assumes "byte_val d < 0x80"
  shows "decode_rune (c # cs @ d # ds) = decode_rune (c # cs)"
proof -
  have cont: "\<not> is_cont d" using assms by (simp add: is_cont_def)
  have lo: "byte_val d < lo" if "lead_class (byte_val c) = Some (sz, lo, hi)" for sz lo hi
    using that assms by (auto simp: lead_class_def split: if_splits)
  consider "cs = []" | a where "cs = [a]" | a b where "cs = [a, b]" | a b e r where "cs = a # b # e # r"
    by (metis list.exhaust)
  then show ?thesis
  proof cases
    case 1
    then show ?thesis using cont lo
      by (auto simp: Let_def split: option.splits if_splits dest: lead_class_size)
  next
    case 2
    then show ?thesis using cont lo
      by (auto simp: Let_def split: option.splits if_splits dest: lead_class_size)
  next
    case 3
    then show ?thesis using cont lo
      by (auto simp: Let_def split: option.splits if_splits dest: lead_class_size)
  next
    case 4
    then show ?thesis
      by (auto simp: Let_def split: option.splits if_splits dest: lead_class_size)
  qed
qed

lemma utf8_runes_append_ascii:
  "t = [] \<or> byte_val (hd t) < 0x80 \<Longrightarrow> utf8_runes (s @ t) = utf8_runes s @ utf8_runes t"
proof (induction s rule: utf8_runes.induct)
  case (2 c cs)
  obtain r w where d: "decode_rune (c # cs) = (r, w)" by fastforce
  have "decode_rune (c # cs @ t) = (r, w)"
  proof (cases t)
    case (Cons d ds)
    then show ?thesis using 2 d decode_rune_append_ascii [of "hd t" c cs ds] by simp
  qed (use d in \<open>simp del: decode_rune.simps\<close>)
  moreover have "w \<le> Suc (length cs)" using decode_rune_width [OF d] by simp
  moreover have "drop w ((c # cs) @ t) = drop w (c # cs) @ t"
  proof -
    have "w \<le> length (c # cs)" using decode_rune_width [OF d] by simp
    then show ?thesis by (simp only: drop_append) simp
  qed
  ultimately show ?case using 2 d by (simp del: decode_rune.simps)
qed simp

lemma utf8_runes_ascii_prefix:
  "list_all (\<lambda>c. byte_val c < 0x80) p \<Longrightarrow> utf8_runes (p @ s) = map byte_val p @ utf8_runes s"
  by (induction p) (simp_all add: rune_self_def)

subsection \<open>Re-encoding a decoded rune\<close>

text \<open>
  A byte sequence that decodes to a rune other than a one-byte \<open>RuneError\<close> is
  that rune's encoding: \<open>EncodeRune\<close> after \<open>DecodeRune\<close> gives the bytes back.
\<close>

lemma divmod_64:
  assumes "y < (64::nat)"
  shows "(k * 64 + y) div 64 = k" and "(k * 64 + y) mod 64 = y"
  using assms by simp_all

lemma encode_rune_2:
  assumes "2 \<le> a" "a < 32" "x < 64"
  shows "encode_rune (a * 64 + x) = [char_of (0xC0 + a), char_of (0x80 + x)]"
  using assms by (simp add: encode_rune_def)

lemma encode_rune_3:
  assumes "a < 16" "x < 64" "y < 64" "0x800 \<le> (a * 64 + x) * 64 + y"
    and "(a * 64 + x) * 64 + y < 0xD800 \<or> 0xDFFF < (a * 64 + x) * 64 + y"
  shows "encode_rune ((a * 64 + x) * 64 + y) = [char_of (0xE0 + a), char_of (0x80 + x), char_of (0x80 + y)]"
proof -
  let ?r = "(a * 64 + x) * 64 + y"
  have d1: "?r div 64 = a * 64 + x" "?r mod 64 = y" using divmod_64 [OF assms(3)] by blast+
  have d2: "(a * 64 + x) div 64 = a" "(a * 64 + x) mod 64 = x" using divmod_64 [OF assms(2)] by blast+
  have d3: "?r div 4096 = a" using d1(1) d2(1) by (simp add: div_mult2_eq [of ?r 64 64, simplified])
  have "?r < 0x10000" using assms(1-3) by simp
  then show ?thesis using assms(4,5) by (simp only: encode_rune_def d1 d2 d3) simp
qed

lemma encode_rune_4:
  assumes "x < 64" "y < 64" "z < 64" "0x10000 \<le> ((a * 64 + x) * 64 + y) * 64 + z"
    and "((a * 64 + x) * 64 + y) * 64 + z \<le> max_rune"
  shows "encode_rune (((a * 64 + x) * 64 + y) * 64 + z) =
    [char_of (0xF0 + a), char_of (0x80 + x), char_of (0x80 + y), char_of (0x80 + z)]"
proof -
  let ?q = "(a * 64 + x) * 64 + y"
  let ?r = "?q * 64 + z"
  have d1: "?r div 64 = ?q" "?r mod 64 = z" using divmod_64 [OF assms(3)] by blast+
  have d2: "?q div 64 = a * 64 + x" "?q mod 64 = y" using divmod_64 [OF assms(2)] by blast+
  have d3: "(a * 64 + x) div 64 = a" "(a * 64 + x) mod 64 = x" using divmod_64 [OF assms(1)] by blast+
  have d4: "?r div 4096 = a * 64 + x" using d1(1) d2(1) by (simp add: div_mult2_eq [of ?r 64 64, simplified])
  have d5: "?r div 262144 = a" using d4 d3(1) by (simp add: div_mult2_eq [of ?r 4096 64, simplified])
  have "\<not> ?r < 0x10000" using assms(4) by simp
  then show ?thesis using assms(4,5) unfolding encode_rune_def
    by (simp only: d1 d2 d3 d4 d5 if_False if_True) (simp add: max_rune_def)
qed

lemma utf8_4_range:
  assumes "a \<le> 4" "x < 64" "y < 64" "z < 64" "a = 0 \<Longrightarrow> 16 \<le> x" "a = 4 \<Longrightarrow> x < 16"
  shows "0x10000 \<le> ((a * 64 + x) * 64 + y) * 64 + z \<and> ((a * 64 + x) * 64 + y) * 64 + z \<le> (0x10FFFF::nat)"
proof -
  consider "a = 0" | "a = 4" | "0 < a" "a < 4" using assms(1) by linarith
  then show ?thesis
  proof cases
    case 1
    then show ?thesis using assms(2-5) by simp
  next
    case 2
    then show ?thesis using assms(2-4,6) by simp
  next
    case 3
    have "(a * 64 + x) * 64 + y < 4 * 4096" "1 * 4096 \<le> (a * 64 + x) * 64"
      using 3 assms(2,3) by simp_all
    then show ?thesis using assms(4) by simp
  qed
qed

lemma encode_rune_decode_rune:
  assumes dec: "decode_rune (c # cs) = (r, w)" and ok: "\<not> (r = rune_error \<and> w = 1)"
  shows "encode_rune r = take w (c # cs)"
proof -
  define b0 :: nat where "b0 = of_char c"
  have c: "c = char_of b0" by (simp add: b0_def)
  consider (ascii) "b0 < 0x80" | (two) "0xC2 \<le> b0" "b0 < 0xE0" | (three) "0xE0 \<le> b0" "b0 < 0xF0"
    | (four) "0xF0 \<le> b0" "b0 \<le> 0xF4" | (bad) "0x80 \<le> b0 \<and> b0 < 0xC2 \<or> 0xF4 < b0"
    by linarith
  then show ?thesis
  proof cases
    case ascii
    then show ?thesis using dec by (auto simp: b0_def rune_self_def encode_rune_def)
  next
    case two
    have "lead_class b0 = Some (2, 0x80, 0xBF)" using two by (simp add: lead_class_def)
    then have v: "cs \<noteq> [] \<and> 0x80 \<le> (of_char (cs ! 0) :: nat) \<and> of_char (cs ! 0) \<le> (0xBF::nat) \<and>
        r = (b0 - 0xC0) * 64 + (of_char (cs ! 0) - 0x80) \<and> w = 2"
      using dec ok two by (auto simp: b0_def rune_self_def Let_def split: if_splits)
    then have "encode_rune r = [char_of b0, char_of (of_char (cs ! 0) :: nat)]"
      using encode_rune_2 [of "b0 - 0xC0" "of_char (cs ! 0) - 0x80"] two v by (elim conjE) simp
    then show ?thesis using v c by (cases cs) simp_all
  next
    case three
    have "\<exists>lo hi. lead_class b0 = Some (3, lo, hi) \<and>
        (b0 = 0xE0 \<longrightarrow> lo = 0xA0) \<and> (b0 = 0xED \<longrightarrow> hi = 0x9F) \<and> 0x80 \<le> lo \<and> hi \<le> 0xBF"
      using three by (auto simp: lead_class_def)
    then obtain lo hi where lc: "lead_class b0 = Some (3, lo, hi)"
      and lohi: "(b0 = 0xE0 \<longrightarrow> lo = 0xA0) \<and> (b0 = 0xED \<longrightarrow> hi = 0x9F) \<and> 0x80 \<le> lo \<and> hi \<le> 0xBF"
      by blast
    define b1 :: nat where "b1 = of_char (cs ! 0)"
    define b2 :: nat where "b2 = of_char (cs ! 1)"
    have v: "2 \<le> length cs \<and> lo \<le> b1 \<and> b1 \<le> hi \<and> 0x80 \<le> b2 \<and> b2 \<le> 0xBF \<and>
        r = ((b0 - 0xE0) * 64 + (b1 - 0x80)) * 64 + (b2 - 0x80) \<and> w = 3"
      using dec ok three lc by (auto simp: b0_def b1_def b2_def rune_self_def is_cont_def Let_def split: if_splits)
    have rng: "0x800 \<le> r" "r < 0xD800 \<or> 0xDFFF < r"
      using v lohi three by (cases "b0 < 0xED"; cases "b0 = 0xED"; auto)+
    have "encode_rune r = [char_of b0, char_of b1, char_of b2]"
      using encode_rune_3 [of "b0 - 0xE0" "b1 - 0x80" "b2 - 0x80"] v rng three lohi by (elim conjE) simp
    then show ?thesis using v c
      by (cases cs rule: remdups_adj.cases) (simp_all add: b1_def b2_def)
  next
    case four
    have "\<exists>lo hi. lead_class b0 = Some (4, lo, hi) \<and>
        (b0 = 0xF0 \<longrightarrow> lo = 0x90) \<and> (b0 = 0xF4 \<longrightarrow> hi = 0x8F) \<and> 0x80 \<le> lo \<and> hi \<le> 0xBF"
      using four by (auto simp: lead_class_def)
    then obtain lo hi where lc: "lead_class b0 = Some (4, lo, hi)"
      and lohi: "(b0 = 0xF0 \<longrightarrow> lo = 0x90) \<and> (b0 = 0xF4 \<longrightarrow> hi = 0x8F) \<and> 0x80 \<le> lo \<and> hi \<le> 0xBF"
      by blast
    define b1 :: nat where "b1 = of_char (cs ! 0)"
    define b2 :: nat where "b2 = of_char (cs ! 1)"
    define b3 :: nat where "b3 = of_char (cs ! 2)"
    have v: "3 \<le> length cs \<and> lo \<le> b1 \<and> b1 \<le> hi \<and> 0x80 \<le> b2 \<and> b2 \<le> 0xBF \<and> 0x80 \<le> b3 \<and> b3 \<le> 0xBF \<and>
        r = (b0 - 0xF0) * 262144 + (b1 - 0x80) * 4096 + (b2 - 0x80) * 64 + (b3 - 0x80) \<and> w = 4"
      using dec ok four lc
      by (auto simp: b0_def b1_def b2_def b3_def rune_self_def is_cont_def Let_def split: if_splits)
    define a where "a = b0 - 0xF0"
    define x where "x = b1 - 0x80"
    define y where "y = b2 - 0x80"
    define z where "z = b3 - 0x80"
    have r: "r = ((a * 64 + x) * 64 + y) * 64 + z"
      using v by (simp add: a_def x_def y_def z_def algebra_simps)
    have digits: "a \<le> 4" "x < 64" "y < 64" "z < 64" "a = 0 \<Longrightarrow> 16 \<le> x" "a = 4 \<Longrightarrow> x < 16"
      using v lohi four by (auto simp: a_def x_def y_def z_def)
    have bytes: "b0 = 0xF0 + a" "b1 = 0x80 + x" "b2 = 0x80 + y" "b3 = 0x80 + z"
      using v lohi four by (auto simp: a_def x_def y_def z_def)
    have "encode_rune r = [char_of b0, char_of b1, char_of b2, char_of b3]"
      unfolding r bytes using utf8_4_range [OF digits]
      by (intro encode_rune_4 digits(2-4)) (simp_all add: max_rune_def)
    moreover obtain d1 d2 d3 ds where "cs = d1 # d2 # d3 # ds"
      using v by (metis Suc_le_length_iff numeral_3_eq_3)
    ultimately show ?thesis using v c by (simp add: b1_def b2_def b3_def)
  next
    case bad
    then have "lead_class b0 = None" by (auto simp: lead_class_def)
    then show ?thesis using dec ok bad by (auto simp: b0_def rune_self_def)
  qed
qed

subsection \<open>Valid UTF-8\<close>

text \<open>
  A rune that decodes validly occupies exactly the bytes of its sequence: its
  width is the sequence size of its leading byte, and the bytes after the
  sequence do not change the decoding.
\<close>

lemma decode_rune_valid_width:
  assumes dec: "decode_rune (c # cs) = (r, n)" and ok: "\<not> (r = rune_error \<and> n = 1)"
    and hi: "\<not> byte_val c < rune_self" and lc: "lead_class (byte_val c) = Some (sz, lo, hi)"
  shows "n = sz \<and> sz - 1 \<le> length cs"
proof -
  consider "sz = 2" | "sz = 3" | "sz = 4" using lead_class_size [OF lc] by linarith
  then show ?thesis
  proof cases
    case 1
    then show ?thesis using dec ok hi lc by (simp add: Let_def Suc_le_eq split: if_splits)
  next
    case 2
    then show ?thesis using dec ok hi lc by (simp add: Let_def split: if_splits)
  next
    case 3
    then show ?thesis using dec ok hi lc by (simp add: Let_def split: if_splits)
  qed
qed

lemma decode_rune_prefix_eq:
  assumes dec: "decode_rune (c # cs) = (r, n)" and ok: "\<not> (r = rune_error \<and> n = 1)"
    and eq: "take (n - 1) ys = take (n - 1) cs"
  shows "decode_rune (c # ys) = (r, n)"
proof (cases "byte_val c < rune_self")
  case True
  then show ?thesis using dec by simp
next
  case False
  then obtain sz lo hi where lc: "lead_class (byte_val c) = Some (sz, lo, hi)"
    using dec ok by (auto simp: Let_def split: option.splits)
  have szn: "n = sz" and len: "sz - 1 \<le> length cs"
    using decode_rune_valid_width [OF dec ok False lc] by simp_all
  have "length (take (n - 1) ys) = n - 1" using eq len szn by simp
  then have ly: "sz - 1 \<le> length ys" using szn by simp
  have nth: "ys ! i = cs ! i" if "i < sz - 1" for i
  proof -
    have "take (n - 1) ys ! i = take (n - 1) cs ! i" using eq by simp
    then show ?thesis using that szn by simp
  qed
  have ne: "ys \<noteq> []" "cs \<noteq> []" using ly len lead_class_size [OF lc] by auto
  consider "sz = 2" | "sz = 3" | "sz = 4" using lead_class_size [OF lc] by linarith
  then have "decode_rune (c # ys) = decode_rune (c # cs)"
  proof cases
    case 1
    then show ?thesis using False lc ly len ne nth [of 0] by (simp add: Let_def)
  next
    case 2
    then show ?thesis using False lc ly len ne nth [of 0] nth [of 1] by (simp add: Let_def)
  next
    case 3
    then show ?thesis using False lc ly len ne nth [of 0] nth [of 1] nth [of 2] by (simp add: Let_def)
  qed
  then show ?thesis using dec by simp
qed

lemma decode_rune_bytes_high:
  assumes dec: "decode_rune (c # cs) = (r, n)" and ok: "\<not> (r = rune_error \<and> n = 1)"
    and hi: "\<not> byte_val c < rune_self"
  shows "list_all (\<lambda>b. 0x80 \<le> byte_val b) (take n (c # cs))"
proof -
  obtain sz lo hi' where lc: "lead_class (byte_val c) = Some (sz, lo, hi')"
    using dec ok hi by (auto simp: Let_def split: option.splits)
  have szn: "n = sz" and len: "sz - 1 \<le> length cs"
    using decode_rune_valid_width [OF dec ok hi lc] by simp_all
  have lo: "0x80 \<le> lo" using lc by (auto simp: lead_class_def split: if_splits)
  have "0x80 \<le> byte_val (cs ! i)" if i: "i < sz - 1" for i
  proof -
    consider "i = 0" | "i = 1" | "i = 2" using i lead_class_size [OF lc] by linarith
    then show ?thesis
    proof cases
      case 1
      then show ?thesis using dec ok hi lc lo by (auto simp: Let_def split: if_splits)
    next
      case 2
      then show ?thesis using dec ok hi lc i by (auto simp: Let_def is_cont_def split: if_splits)
    next
      case 3
      then show ?thesis using dec ok hi lc i by (auto simp: Let_def is_cont_def split: if_splits)
    qed
  qed
  then have "list_all (\<lambda>b. 0x80 \<le> byte_val b) (take (n - 1) cs)"
    using szn by (auto simp: list_all_length)
  moreover have "0 < n" using decode_rune_width [OF dec] by simp
  ultimately show ?thesis using hi by (cases n) (simp_all add: rune_self_def)
qed

lemma valid_utf8_step:
  assumes "valid_utf8 (c # cs)" and "decode_rune (c # cs) = (r, n)"
  shows "\<not> (r = rune_error \<and> n = 1) \<and> valid_utf8 (drop n (c # cs))"
  using assms by simp

lemma valid_utf8_ascii: "list_all (\<lambda>c. byte_val c < 0x80) s \<Longrightarrow> valid_utf8 s"
  by (induction s) (auto simp: rune_self_def rune_error_def)

end
