(* ===== verification/Schema.thy ===== *)
theory Schema
  imports GoStrings
begin

text \<open>
  The output schema.  The converter reads its target struct by reflection
  (\<open>reflect.TypeOf(comuni.Comune{})\<close> in \<open>parseStructTags\<close>): for each field, in
  declaration order, its name, the name of its type and its \<open>csv\<close> struct tag.
  \<open>struct_field\<close> is that triple and a \<open>struct_type\<close> the list of them;
  \<open>comune_struct\<close> is the \<open>Comune\<close> struct of \<open>src/comuni.go\<close>.  A value of the
  struct is an association list from field names to Go values, in field order,
  created with every field at its zero value; \<open>get_field\<close> is
  \<open>csvFieldEntry.getField\<close> (reflection's \<open>FieldByName\<close>, which panics on an
  unknown name) and \<open>set_field\<close> its \<open>Set*\<close> calls.
\<close>

record struct_field =
  field_name :: string
  field_type :: string
  field_tag :: string

type_synonym struct_type = "struct_field list"

datatype go_value =
    GoString string
  | GoBool bool
  | GoInt32 "32 word"
  | GoInt64 "64 word"
  | GoZero string

type_synonym go_object = "(string \<times> go_value) list"

text \<open>The zero value of a field by the name of its type.\<close>

definition zero_value :: "string \<Rightarrow> go_value" where
  "zero_value t =
     (if t = ''string'' then GoString []
      else if t = ''bool'' then GoBool False
      else if t = ''int32'' then GoInt32 0
      else if t = ''int'' \<or> t = ''int64'' then GoInt64 0
      else GoZero t)"

text \<open>\<open>comune := comuni.Comune{}\<close>.\<close>

definition new_struct :: "struct_type \<Rightarrow> go_object" where
  "new_struct st = map (\<lambda>f. (field_name f, zero_value (field_type f))) st"

datatype panic = NotStruct | NotFoundField string

text \<open>\<open>entry.getField(&comune)\<close>: the field must exist by name.\<close>

definition get_field :: "string \<Rightarrow> go_object \<Rightarrow> panic + go_value" where
  "get_field name obj =
     (case map_of obj name of None \<Rightarrow> Inl (NotFoundField name) | Some v \<Rightarrow> Inr v)"

definition set_field :: "string \<Rightarrow> go_value \<Rightarrow> go_object \<Rightarrow> go_object" where
  "set_field name v obj = map (\<lambda>(n, x). if n = name then (n, v) else (n, x)) obj"

definition field_names :: "struct_type \<Rightarrow> string list" where
  "field_names st = map field_name st"

subsection \<open>The Comune struct\<close>

text \<open>
  \<open>unita\<close> is the UTF-8 text \<open>Unit\<close> followed by U+00E0 (bytes C3 A0), as it is
  spelled in the tags of \<open>src/comuni.go\<close>.
\<close>

definition unita :: string where
  "unita = ''Unit'' @ [CHR 0xC3, CHR 0xA0]"

definition sf :: "string \<Rightarrow> string \<Rightarrow> string \<Rightarrow> struct_field" where
  "sf n t g = \<lparr>field_name = n, field_type = t, field_tag = g\<rparr>"

definition comune_struct :: struct_type where
  "comune_struct = [
     sf ''CodiceRegione'' ''string'' ''Codice Regione'',
     sf ''CodiceUnitaTerritoriale'' ''string'' (''Codice dell'' @ [CHR 0x27] @ unita @ '' territoriale sovracomunale...''),
     sf ''CodiceProvincia'' ''string'' ''Codice Provincia (Storico)...'',
     sf ''ProgressivoComune'' ''string'' ''Progressivo del Comune...'',
     sf ''CodiceComune'' ''string'' ''Codice Comune formato alfanumerico'',
     sf ''Denominazione'' ''string'' ''Denominazione (Italiana e straniera)'',
     sf ''DenominazioneIta'' ''string'' ''Denominazione in italiano'',
     sf ''DenominazioneNonIta'' ''string'' ''Denominazione altra lingua'',
     sf ''CodiceRipartizioneGeo'' ''string'' ''Codice Ripartizione Geografica'',
     sf ''RipartizioneGeo'' ''string'' ''Ripartizione geografica'',
     sf ''DenominazioneRegione'' ''string'' ''Denominazione Regione'',
     sf ''DenominazioneUnitaTerritoriale'' ''string'' (''Denominazione dell'' @ [CHR 0x27] @ unita @ '' territoriale sovracomunale...''),
     sf ''TipologiaUnitaTerritoriale'' ''string'' (''Tipologia di '' @ unita @ '' territoriale sovracomunale''),
     sf ''ComuneCapoluogo'' ''bool'' (''Flag Comune capoluogo di provincia/citt'' @ [CHR 0xC3, CHR 0xA0] @ ''...''),
     sf ''SiglaAutomobilistica'' ''string'' ''Sigla automobilistica'',
     sf ''CodiceComuneNumerico'' ''int32'' ''Codice Comune formato numerico'',
     sf ''CodiceComuneNumerico110'' ''int32'' ''Codice Comune numerico con 110 province...'',
     sf ''CodiceComuneNumerico107'' ''int32'' ''Codice Comune numerico con 107 province...'',
     sf ''CodiceComuneNumerico103'' ''int32'' ''Codice Comune numerico con 103 province...'',
     sf ''Codice_NUTS1_2010'' ''string'' ''Codice NUTS1 2010'',
     sf ''Codice_NUTS2_2010'' ''string'' ''Codice NUTS2 2010...'',
     sf ''Codice_NUTS3_2010'' ''string'' ''Codice NUTS3 2010'',
     sf ''Codice_NUTS1_2021'' ''string'' ''Codice NUTS1 2021'',
     sf ''Codice_NUTS2_2021'' ''string'' ''Codice NUTS2 2021...'',
     sf ''Codice_NUTS3_2021'' ''string'' ''Codice NUTS3 2021'']"

subsection \<open>Struct values\<close>

lemma map_of_new_struct:
  "map_of (new_struct st) n = map_option (zero_value \<circ> field_type) (find (\<lambda>f. field_name f = n) st)"
  by (induction st) (auto simp: new_struct_def)

lemma map_fst_set_field [simp]: "map fst (set_field n v obj) = map fst obj"
  by (induction obj) (auto simp: set_field_def)

lemma map_fst_new_struct [simp]: "map fst (new_struct st) = field_names st"
  by (simp add: new_struct_def field_names_def)

lemma get_field_Inr_iff: "(\<exists>v. get_field n obj = Inr v) \<longleftrightarrow> n \<in> set (map fst obj)"
proof -
  have "(\<exists>v. get_field n obj = Inr v) \<longleftrightarrow> map_of obj n \<noteq> None"
    by (auto simp: get_field_def split: option.splits)
  then show ?thesis by (simp add: map_of_eq_None_iff)
qed

lemma map_of_set_field:
  "map_of (set_field n v obj) m = (if m = n \<and> map_of obj m \<noteq> None then Some v else map_of obj m)"
  by (induction obj) (auto simp: set_field_def)

end
