(* ===== verification/Binder.thy ===== *)
theory Binder
  imports Schema
begin

text \<open>
  The schema binder, \<open>parseStructTags\<close> of \<open>src/cmd/go-comuni/main.go\<close>.  It
  builds \<open>headerIndexMap\<close> (header text to column index), allocates one
  \<open>csvFieldEntry\<close> per map entry, and then, for each struct field in
  declaration order, scans the map for the first header column whose trimmed
  text matches the field's tag and writes the field into that column's entry.
  Entries are shared by pointer between \<open>ColumnNameToEntry\<close>,
  \<open>ColumnIndexToEntry\<close> and \<open>TagToEntry\<close>, so the model keeps them in an explicit
  store (\<open>entries\<close>, addressed by \<open>ptr\<close>) and the three maps hold addresses.
  Go's \<open>range\<close> over a map visits the entries in an unspecified order that
  differs from one loop to the next; the model takes these orders as arguments:
  \<open>it0\<close> for the first loop and \<open>its k\<close> for the scan made for the \<open>k\<close>-th field.
  An order is admissible when it is a permutation of the map's entries
  (\<open>iteration_order\<close>).
\<close>

record csv_field_entry =
  entry_field_name :: string
  entry_field_type_name :: string
  entry_tag_name :: string
  entry_header_column_name :: string
  entry_header_column_index :: int

type_synonym ptr = nat

record csv_fields =
  csv_type :: struct_type
  tag_to_entry :: "string \<rightharpoonup> ptr"
  column_name_to_entry :: "string \<rightharpoonup> ptr"
  column_index_to_entry :: "nat \<rightharpoonup> ptr"
  entries :: "csv_field_entry list"

type_synonym map_order = "(string \<times> nat) list"

subsection \<open>headerIndexMap and its iteration orders\<close>

definition header_index_map :: "string list \<Rightarrow> string \<rightharpoonup> nat" where
  "header_index_map header = fold (\<lambda>(i, name) m. m(name \<mapsto> i)) (indexed header) Map.empty"

text \<open>The entries of \<open>headerIndexMap\<close>: each distinct text with its last column.\<close>

definition header_entries :: "string list \<Rightarrow> map_order" where
  "header_entries header =
     map (\<lambda>i. (header ! i, i))
       (filter (\<lambda>i. header ! i \<notin> set (drop (Suc i) header)) [0..<length header])"

definition iteration_order :: "string list \<Rightarrow> map_order \<Rightarrow> bool" where
  "iteration_order header it \<longleftrightarrow> mset it = mset (header_entries header)"

subsection \<open>The operations\<close>

definition empty_csv_fields :: "struct_type \<Rightarrow> csv_fields" where
  "empty_csv_fields t = \<lparr>csv_type = t, tag_to_entry = Map.empty, column_name_to_entry = Map.empty,
     column_index_to_entry = Map.empty, entries = []\<rparr>"

text \<open>\<open>&csvFieldEntry{...}\<close>: a fresh address in the store.\<close>

definition alloc_entry :: "csv_field_entry \<Rightarrow> csv_fields \<Rightarrow> ptr \<times> csv_fields" where
  "alloc_entry e cf = (length (entries cf), cf\<lparr>entries := entries cf @ [e]\<rparr>)"

text \<open>The first loop over \<open>headerIndexMap\<close> (lines 76--84).\<close>

fun add_column_entries :: "map_order \<Rightarrow> csv_fields \<Rightarrow> csv_fields" where
  "add_column_entries [] cf = cf"
| "add_column_entries ((name, idx) # it) cf =
     (let (p, cf') = alloc_entry \<lparr>entry_field_name = [], entry_field_type_name = [], entry_tag_name = [],
                                 entry_header_column_name = name, entry_header_column_index = int idx\<rparr> cf
      in add_column_entries it (cf'\<lparr>column_name_to_entry := (column_name_to_entry cf')(name \<mapsto> p),
                                    column_index_to_entry := (column_index_to_entry cf')(idx \<mapsto> p)\<rparr>))"

text \<open>The test of lines 100--116 for a tag against a trimmed header text.\<close>

definition tag_matches :: "string \<Rightarrow> string \<Rightarrow> bool" where
  "tag_matches tag col =
     (if has_suffix tag ''...'' then
        (let prefix = take (length tag - 3) tag; prefix_len = length prefix in
         length col \<ge> prefix_len \<and>
         equal_fold (trim_space (take prefix_len col)) (to_lower (trim_space prefix)))
      else equal_fold (trim_space col) (to_lower (trim_space tag)))"

text \<open>The inner loop of lines 99--117: the first entry in iteration order that matches.\<close>

fun find_column :: "string \<Rightarrow> map_order \<Rightarrow> (string \<times> nat) option" where
  "find_column tag [] = None"
| "find_column tag ((name, idx) # it) =
     (let col = trim_space name in
      if tag_matches tag col then Some (col, idx) else find_column tag it)"

text \<open>One iteration of the field loop (lines 91--132).\<close>

definition bind_field :: "map_order \<Rightarrow> struct_field \<Rightarrow> csv_fields \<Rightarrow> csv_fields" where
  "bind_field it f cf =
     (let tag = field_tag f;
          (col, idx, entry) =
            (case find_column tag it of
               Some (c, i) \<Rightarrow> (c, int i, column_index_to_entry cf i)
             | None \<Rightarrow> ([], -1, None))
      in case entry of
           Some p \<Rightarrow>
             cf\<lparr>entries := (entries cf)[p := (entries cf ! p)\<lparr>entry_tag_name := tag,
                   entry_field_name := field_name f, entry_field_type_name := field_type f\<rparr>],
                tag_to_entry := (tag_to_entry cf)(tag \<mapsto> p)\<rparr>
         | None \<Rightarrow>
             (let (p, cf') = alloc_entry \<lparr>entry_field_name = field_name f,
                    entry_field_type_name = field_type f, entry_tag_name = tag,
                    entry_header_column_name = col, entry_header_column_index = idx\<rparr> cf
              in cf'\<lparr>tag_to_entry := (tag_to_entry cf')(tag \<mapsto> p)\<rparr>))"

fun bind_fields :: "(nat \<Rightarrow> map_order) \<Rightarrow> nat \<Rightarrow> struct_field list \<Rightarrow> csv_fields \<Rightarrow> csv_fields" where
  "bind_fields its k [] cf = cf"
| "bind_fields its k (f # fs) cf = bind_fields its (Suc k) fs (bind_field (its k) f cf)"

definition parse_struct_tags ::
  "struct_type \<Rightarrow> string list \<Rightarrow> map_order \<Rightarrow> (nat \<Rightarrow> map_order) \<Rightarrow> csv_fields" where
  "parse_struct_tags t header it0 its =
     bind_fields its 0 t (add_column_entries it0 (empty_csv_fields t))"

subsection \<open>The binding table\<close>

text \<open>
  What the materializer reads of the result: for a column index, the entry
  \<open>ColumnIndexToEntry\<close> points to, and the field it names, if it names one
  (line 209: \<open>entry == nil || entry.FieldName == ""\<close> skips the column).
\<close>

definition column_entry :: "csv_fields \<Rightarrow> nat \<Rightarrow> csv_field_entry option" where
  "column_entry cf i = map_option (\<lambda>p. entries cf ! p) (column_index_to_entry cf i)"

definition column_binding :: "csv_fields \<Rightarrow> nat \<rightharpoonup> string \<times> string" where
  "column_binding cf i =
     (case column_entry cf i of
        None \<Rightarrow> None
      | Some e \<Rightarrow> if entry_field_name e = [] then None
                  else Some (entry_field_name e, entry_field_type_name e))"

text \<open>
  The invariant of the store: every address held by the three maps is
  allocated, distinct columns hold distinct entries (so writing a field into one
  column's entry changes no other column), and each column's entry records that
  column's index.
\<close>

definition entries_wf :: "csv_fields \<Rightarrow> bool" where
  "entries_wf cf \<longleftrightarrow>
     ran (column_index_to_entry cf) \<subseteq> {..<length (entries cf)} \<and>
     ran (column_name_to_entry cf) \<subseteq> {..<length (entries cf)} \<and>
     ran (tag_to_entry cf) \<subseteq> {..<length (entries cf)} \<and>
     inj_on (column_index_to_entry cf) (dom (column_index_to_entry cf)) \<and>
     (\<lambda>i. map_option (\<lambda>p. entry_header_column_index (entries cf ! p)) (column_index_to_entry cf i))
       = (\<lambda>i. map_option (\<lambda>_. int i) (column_index_to_entry cf i))"

text \<open>
  \<open>bind_table ch\<close> is the table a binder produces when, for the \<open>k\<close>-th field
  \<open>f\<close>, it chooses the column \<open>ch k f\<close>; a later field overwrites an earlier
  one bound to the same column.  \<open>chooser_of its\<close> is the choice the code makes
  under the iteration orders \<open>its\<close>.
\<close>

fun bind_table :: "(nat \<Rightarrow> struct_field \<Rightarrow> nat option) \<Rightarrow> nat \<Rightarrow> struct_field list
    \<Rightarrow> (nat \<rightharpoonup> string \<times> string) \<Rightarrow> (nat \<rightharpoonup> string \<times> string)" where
  "bind_table ch k [] tbl = tbl"
| "bind_table ch k (f # fs) tbl =
     bind_table ch (Suc k) fs (case ch k f of None \<Rightarrow> tbl | Some i \<Rightarrow> tbl(i \<mapsto> (field_name f, field_type f)))"

definition chooser_of :: "(nat \<Rightarrow> map_order) \<Rightarrow> nat \<Rightarrow> struct_field \<Rightarrow> nat option" where
  "chooser_of its k f = map_option snd (find_column (field_tag f) (its k))"

subsection \<open>The binder of the specification\<close>

text \<open>
  The specification (section 4.3) binds each field to the first column, in
  ascending index order, whose trimmed text matches the field's tag, using the
  same matching rule as the code.  \<open>matching_entries\<close> lists the map entries a
  field's tag matches; the tags are \<open>unambiguous\<close> for a header when each field
  matches at most one entry.
\<close>

definition spec_column :: "string list \<Rightarrow> struct_field \<Rightarrow> nat option" where
  "spec_column h f = find (\<lambda>i. tag_matches (field_tag f) (trim_space (h ! i))) [0..<length h]"

definition spec_binding :: "struct_type \<Rightarrow> string list \<Rightarrow> nat \<rightharpoonup> string \<times> string" where
  "spec_binding t h = bind_table (\<lambda>_ f. spec_column h f) 0 t Map.empty"

definition matching_entries :: "string list \<Rightarrow> struct_field \<Rightarrow> map_order" where
  "matching_entries h f = filter (\<lambda>(n, i). tag_matches (field_tag f) (trim_space n)) (header_entries h)"

definition unambiguous :: "struct_type \<Rightarrow> string list \<Rightarrow> bool" where
  "unambiguous t h \<longleftrightarrow> (\<forall>f\<in>set t. length (matching_entries h f) \<le> 1)"

subsection \<open>The entries of headerIndexMap\<close>

lemmas binder_eval = parse_struct_tags_def bind_field_def alloc_entry_def empty_csv_fields_def
  tag_matches_def column_binding_def column_entry_def Let_def iteration_order_def header_entries_def
  spec_binding_def spec_column_def sf_def matching_entries_def unambiguous_def

text \<open>
  \<open>header_entries\<close> lists exactly the entries of the Go map \<open>headerIndexMap\<close>:
  its keys are distinct, and as an association list it is the map.
\<close>

lemma header_index_map_snoc:
  "header_index_map (h @ [x]) = (header_index_map h)(x \<mapsto> length h)"
  by (simp add: header_index_map_def enumerate_append_eq)

lemma header_index_map_Some:
  "header_index_map h n = Some i \<longleftrightarrow> i < length h \<and> h ! i = n \<and> n \<notin> set (drop (Suc i) h)"
proof (induction h arbitrary: i rule: rev_induct)
  case Nil
  then show ?case by (simp add: header_index_map_def)
next
  case (snoc x h)
  show ?case
  proof (cases "n = x")
    case True
    then show ?thesis
      by (auto simp: header_index_map_snoc nth_append less_Suc_eq)
  next
    case False
    then show ?thesis
      by (auto simp: header_index_map_snoc snoc.IH nth_append less_Suc_eq split: if_splits)
  qed
qed

lemma in_header_entries:
  "(n, i) \<in> set (header_entries h) \<longleftrightarrow> i < length h \<and> h ! i = n \<and> n \<notin> set (drop (Suc i) h)"
  by (auto simp: header_entries_def)

lemma distinct_header_entries_fst: "distinct (map fst (header_entries h))"
proof -
  have "inj_on fst (set (header_entries h))"
  proof (rule inj_onI)
    fix a b assume a: "a \<in> set (header_entries h)" and b: "b \<in> set (header_entries h)"
      and eq: "fst a = fst b"
    obtain n i m j where ab: "a = (n, i)" "b = (m, j)" by fastforce
    from a b eq ab have i: "i < length h" "h ! i = n" "n \<notin> set (drop (Suc i) h)"
      and j: "j < length h" "h ! j = n" "n \<notin> set (drop (Suc j) h)"
      by (auto simp: in_header_entries)
    have "\<not> i < j" using i j nth_in_set_drop [of i j h] by auto
    moreover have "\<not> j < i" using i j nth_in_set_drop [of j i h] by auto
    ultimately show "a = b" using ab i j eq by simp
  qed
  moreover have "distinct (header_entries h)" by (simp add: header_entries_def distinct_map inj_on_def)
  ultimately show ?thesis by (simp add: distinct_map)
qed

lemma distinct_header_entries_snd: "distinct (map snd (header_entries h))"
  by (simp add: header_entries_def comp_def)

lemma map_of_header_entries: "map_of (header_entries h) = header_index_map h"
proof
  fix n
  show "map_of (header_entries h) n = header_index_map h n"
  proof (cases "header_index_map h n")
    case None
    then have "\<forall>i. (n, i) \<notin> set (header_entries h)"
      by (metis header_index_map_Some in_header_entries not_None_eq)
    then have "n \<notin> fst ` set (header_entries h)" by force
    then show ?thesis using None by (simp add: map_of_eq_None_iff)
  next
    case (Some i)
    then have "(n, i) \<in> set (header_entries h)"
      by (simp add: header_index_map_Some in_header_entries)
    then show ?thesis using Some distinct_header_entries_fst by simp
  qed
qed

subsection \<open>The store invariant and the effect of binding one field\<close>

lemma column_entry_append:
  assumes "ran (column_index_to_entry cf) \<subseteq> {..<length (entries cf)}"
  shows "column_entry (cf\<lparr>entries := entries cf @ es\<rparr>) = column_entry cf"
proof
  fix i
  show "column_entry (cf\<lparr>entries := entries cf @ es\<rparr>) i = column_entry cf i"
  proof (cases "column_index_to_entry cf i")
    case (Some p)
    then have "p < length (entries cf)" using assms by (auto simp: ran_def)
    then show ?thesis using Some by (simp add: column_entry_def nth_append)
  qed (simp add: column_entry_def)
qed

lemma add_column_entries_wf:
  assumes "entries_wf cf" and "column_binding cf = Map.empty"
    and "distinct (map snd it)" and "dom (column_index_to_entry cf) \<inter> set (map snd it) = {}"
  shows "entries_wf (add_column_entries it cf) \<and> column_binding (add_column_entries it cf) = Map.empty
     \<and> dom (column_index_to_entry (add_column_entries it cf)) = dom (column_index_to_entry cf) \<union> set (map snd it)"
  using assms
proof (induction it arbitrary: cf)
  case Nil
  then show ?case by simp
next
  case (Cons ni it)
  obtain name idx where ni: "ni = (name, idx)" by fastforce
  let ?p = "length (entries cf)"
  let ?e = "\<lparr>entry_field_name = [], entry_field_type_name = [], entry_tag_name = [],
            entry_header_column_name = name, entry_header_column_index = int idx\<rparr>"
  let ?cf1 = "cf\<lparr>entries := entries cf @ [?e],
               column_name_to_entry := (column_name_to_entry cf)(name \<mapsto> ?p),
               column_index_to_entry := (column_index_to_entry cf)(idx \<mapsto> ?p)\<rparr>"
  have step: "add_column_entries (ni # it) cf = add_column_entries it ?cf1"
    by (simp add: ni alloc_entry_def)
  have idx_new: "idx \<notin> dom (column_index_to_entry cf)" using Cons.prems(4) ni by auto
  have p_new: "?p \<notin> ran (column_index_to_entry cf)" using Cons.prems(1) by (auto simp: entries_wf_def)
  have wf1: "entries_wf ?cf1"
  proof -
    have "ran ((column_index_to_entry cf)(idx \<mapsto> ?p)) \<subseteq> {..<length (entries ?cf1)}"
      using Cons.prems(1) ran_upd_subset [of "column_index_to_entry cf" idx ?p]
      by (auto simp: entries_wf_def)
    moreover have "ran ((column_name_to_entry cf)(name \<mapsto> ?p)) \<subseteq> {..<length (entries ?cf1)}"
      using Cons.prems(1) ran_upd_subset [of "column_name_to_entry cf" name ?p]
      by (auto simp: entries_wf_def)
    moreover have "ran (tag_to_entry cf) \<subseteq> {..<length (entries ?cf1)}"
      using Cons.prems(1) by (auto simp: entries_wf_def)
    moreover have "inj_on ((column_index_to_entry cf)(idx \<mapsto> ?p)) (dom ((column_index_to_entry cf)(idx \<mapsto> ?p)))"
      using Cons.prems(1) idx_new p_new by (auto simp: entries_wf_def inj_on_def ran_def)
    moreover have "(\<lambda>i. map_option (\<lambda>p. entry_header_column_index ((entries cf @ [?e]) ! p))
          (((column_index_to_entry cf)(idx \<mapsto> ?p)) i))
        = (\<lambda>i. map_option (\<lambda>_. int i) (((column_index_to_entry cf)(idx \<mapsto> ?p)) i))"
    proof
      fix i
      show "map_option (\<lambda>p. entry_header_column_index ((entries cf @ [?e]) ! p))
          (((column_index_to_entry cf)(idx \<mapsto> ?p)) i)
        = map_option (\<lambda>_. int i) (((column_index_to_entry cf)(idx \<mapsto> ?p)) i)"
      proof (cases "column_index_to_entry cf i")
        case (Some q)
        then have "q < ?p" using Cons.prems(1) by (auto simp: entries_wf_def ran_def)
        moreover have "entry_header_column_index (entries cf ! q) = int i"
          using Cons.prems(1) Some by (auto simp: entries_wf_def fun_eq_iff dest: spec [of _ i])
        ultimately show ?thesis using Some by (simp add: nth_append)
      qed simp
    qed
    ultimately show ?thesis by (simp add: entries_wf_def)
  qed
  have bind1: "column_binding ?cf1 = Map.empty"
  proof
    fix j
    show "column_binding ?cf1 j = None"
    proof (cases "j = idx")
      case True
      then show ?thesis by (simp add: column_binding_def column_entry_def)
    next
      case False
      then have "column_entry ?cf1 j = column_entry (cf\<lparr>entries := entries cf @ [?e]\<rparr>) j"
        by (simp add: column_entry_def)
      also have "\<dots> = column_entry cf j"
        using Cons.prems(1) column_entry_append [of cf "[?e]"] by (simp add: entries_wf_def)
      finally show ?thesis using Cons.prems(2) by (simp add: column_binding_def fun_eq_iff)
    qed
  qed
  have dom1: "dom (column_index_to_entry ?cf1) \<inter> set (map snd it) = {}"
    using Cons.prems(3,4) ni by auto
  have "distinct (map snd it)" using Cons.prems(3) by simp
  with Cons.IH [OF wf1 bind1 _ dom1]
  have "entries_wf (add_column_entries it ?cf1) \<and> column_binding (add_column_entries it ?cf1) = Map.empty
     \<and> dom (column_index_to_entry (add_column_entries it ?cf1)) = dom (column_index_to_entry ?cf1) \<union> set (map snd it)"
    by blast
  then show ?case unfolding step using ni by auto
qed


lemma column_index_to_entry_bind_field [simp]:
  "column_index_to_entry (bind_field it f cf) = column_index_to_entry cf"
  by (auto simp: bind_field_def alloc_entry_def Let_def split: option.splits prod.splits)

lemma column_entry_update:
  assumes wf: "entries_wf cf" and i: "column_index_to_entry cf i = Some p"
  shows "column_entry (cf\<lparr>entries := (entries cf)[p := e], tag_to_entry := t\<rparr>) = (column_entry cf)(i \<mapsto> e)"
proof
  fix j
  have p: "p < length (entries cf)" using wf i by (auto simp: entries_wf_def ran_def)
  show "column_entry (cf\<lparr>entries := (entries cf)[p := e], tag_to_entry := t\<rparr>) j = ((column_entry cf)(i \<mapsto> e)) j"
  proof (cases "column_index_to_entry cf j")
    case None
    then show ?thesis using i by (auto simp: column_entry_def)
  next
    case (Some q)
    have inj: "inj_on (column_index_to_entry cf) (dom (column_index_to_entry cf))"
      using wf by (simp add: entries_wf_def)
    have "q = p \<longleftrightarrow> j = i"
      using inj_onD [OF inj, of j i] i Some by (auto simp: domI)
    then show ?thesis using Some p by (auto simp: column_entry_def)
  qed
qed

lemma bind_field_found:
  assumes "find_column (field_tag f) it = Some (c, i)" and "column_index_to_entry cf i = Some p"
  shows "bind_field it f cf =
     cf\<lparr>entries := (entries cf)[p := (entries cf ! p)\<lparr>entry_tag_name := field_tag f,
         entry_field_name := field_name f, entry_field_type_name := field_type f\<rparr>],
        tag_to_entry := (tag_to_entry cf)(field_tag f \<mapsto> p)\<rparr>"
  using assms by (simp add: bind_field_def Let_def)

lemma bind_field_alloc:
  assumes "\<forall>c i. find_column (field_tag f) it = Some (c, i) \<longrightarrow> column_index_to_entry cf i = None"
  shows "bind_field it f cf =
     cf\<lparr>entries := entries cf @ [\<lparr>entry_field_name = field_name f, entry_field_type_name = field_type f,
           entry_tag_name = field_tag f,
           entry_header_column_name = (case find_column (field_tag f) it of None \<Rightarrow> [] | Some (c, i) \<Rightarrow> c),
           entry_header_column_index = (case find_column (field_tag f) it of None \<Rightarrow> -1 | Some (c, i) \<Rightarrow> int i)\<rparr>],
        tag_to_entry := (tag_to_entry cf)(field_tag f \<mapsto> length (entries cf))\<rparr>"
proof (cases "find_column (field_tag f) it")
  case None
  then show ?thesis by (simp add: bind_field_def alloc_entry_def Let_def)
next
  case (Some ci)
  then show ?thesis using assms
    by (cases ci) (simp add: bind_field_def alloc_entry_def Let_def)
qed

lemma bind_field_binding:
  assumes wf: "entries_wf cf"
  shows "column_binding (bind_field it f cf) =
     (case find_column (field_tag f) it of
        Some (c, i) \<Rightarrow>
          if i \<in> dom (column_index_to_entry cf)
          then (column_binding cf)(i := if field_name f = [] then None else Some (field_name f, field_type f))
          else column_binding cf
      | None \<Rightarrow> column_binding cf)"
proof -
  have app: "column_entry (cf\<lparr>entries := entries cf @ es, tag_to_entry := t\<rparr>) = column_entry cf" for es t
  proof -
    have "column_entry (cf\<lparr>entries := entries cf @ es, tag_to_entry := t\<rparr>)
        = column_entry (cf\<lparr>entries := entries cf @ es\<rparr>)"
      by (simp add: column_entry_def fun_eq_iff)
    then show ?thesis using column_entry_append [of cf es] wf by (simp add: entries_wf_def)
  qed
  show ?thesis
  proof (cases "\<exists>c i p. find_column (field_tag f) it = Some (c, i) \<and> column_index_to_entry cf i = Some p")
    case True
    then obtain c i p where ci: "find_column (field_tag f) it = Some (c, i)"
      and p: "column_index_to_entry cf i = Some p" by blast
    show ?thesis unfolding bind_field_found [OF ci p]
      using ci p column_entry_update [OF wf p] by (simp add: column_binding_def fun_eq_iff domIff)
  next
    case False
    then have none: "\<forall>c i. find_column (field_tag f) it = Some (c, i) \<longrightarrow> column_index_to_entry cf i = None"
      by auto
    show ?thesis unfolding bind_field_alloc [OF none]
      using none app by (auto simp: column_binding_def fun_eq_iff split: option.splits)
  qed
qed

lemma header_index_preserved:
  assumes "(\<lambda>i. map_option (\<lambda>p. H (es ! p)) (m i)) = (\<lambda>i. map_option (\<lambda>_. int i) (m i))"
    and "\<forall>q\<in>ran m. H (es' ! q) = H (es ! q)"
  shows "(\<lambda>i. map_option (\<lambda>p. H (es' ! p)) (m i)) = (\<lambda>i. map_option (\<lambda>_. int i) (m i))"
proof
  fix i
  show "map_option (\<lambda>p. H (es' ! p)) (m i) = map_option (\<lambda>_. int i) (m i)"
  proof (cases "m i")
    case (Some q)
    then have "q \<in> ran m" by (auto simp: ran_def)
    then show ?thesis using Some assms(2) fun_cong [OF assms(1), of i] by simp
  qed simp
qed

lemma bind_field_wf:
  assumes wf: "entries_wf cf"
  shows "entries_wf (bind_field it f cf)"
proof -
  have wf5: "(\<lambda>i. map_option (\<lambda>p. entry_header_column_index (entries cf ! p)) (column_index_to_entry cf i))
      = (\<lambda>i. map_option (\<lambda>_. int i) (column_index_to_entry cf i))"
    using wf by (simp add: entries_wf_def)
  show ?thesis
  proof (cases "\<exists>c i p. find_column (field_tag f) it = Some (c, i) \<and> column_index_to_entry cf i = Some p")
    case True
    then obtain c i p where ci: "find_column (field_tag f) it = Some (c, i)"
      and p: "column_index_to_entry cf i = Some p" by blast
    have pl: "p < length (entries cf)" using wf p by (auto simp: entries_wf_def ran_def)
    let ?es = "(entries cf)[p := (entries cf ! p)\<lparr>entry_tag_name := field_tag f,
           entry_field_name := field_name f, entry_field_type_name := field_type f\<rparr>]"
    have hi: "\<forall>q\<in>ran (column_index_to_entry cf).
        entry_header_column_index (?es ! q) = entry_header_column_index (entries cf ! q)"
      using pl by (auto simp: nth_list_update)
    have "(\<lambda>i. map_option (\<lambda>p. entry_header_column_index (?es ! p)) (column_index_to_entry cf i))
        = (\<lambda>i. map_option (\<lambda>_. int i) (column_index_to_entry cf i))"
      by (rule header_index_preserved [OF wf5 hi])
    then show ?thesis unfolding bind_field_found [OF ci p]
      using wf pl ran_upd_subset [of "tag_to_entry cf" "field_tag f" p]
      by (auto simp: entries_wf_def)
  next
    case False
    then have none: "\<forall>c i. find_column (field_tag f) it = Some (c, i) \<longrightarrow> column_index_to_entry cf i = None"
      by auto
    obtain e where eq: "bind_field it f cf =
        cf\<lparr>entries := entries cf @ [e], tag_to_entry := (tag_to_entry cf)(field_tag f \<mapsto> length (entries cf))\<rparr>"
      using bind_field_alloc [OF none] by blast
    have hi: "\<forall>q\<in>ran (column_index_to_entry cf).
        entry_header_column_index ((entries cf @ [e]) ! q) = entry_header_column_index (entries cf ! q)"
      using wf by (auto simp: entries_wf_def nth_append)
    have "(\<lambda>i. map_option (\<lambda>p. entry_header_column_index ((entries cf @ [e]) ! p)) (column_index_to_entry cf i))
        = (\<lambda>i. map_option (\<lambda>_. int i) (column_index_to_entry cf i))"
      by (rule header_index_preserved [OF wf5 hi])
    then show ?thesis unfolding eq
      using wf ran_upd_subset [of "tag_to_entry cf" "field_tag f" "length (entries cf)"]
      by (auto simp: entries_wf_def)
  qed
qed

lemma iteration_order_set: "iteration_order h it \<Longrightarrow> set it = set (header_entries h)"
  unfolding iteration_order_def by (rule mset_eq_setD)

lemma iteration_order_distinct_snd: "iteration_order h it \<Longrightarrow> distinct (map snd it)"
proof -
  assume "iteration_order h it"
  then have "mset (map snd it) = mset (map snd (header_entries h))"
    by (simp add: iteration_order_def)
  then show ?thesis using distinct_header_entries_snd mset_eq_imp_distinct_iff by blast
qed

lemma find_column_Some:
  "find_column tag it = Some (c, i) \<Longrightarrow> \<exists>n. (n, i) \<in> set it \<and> c = trim_space n \<and> tag_matches tag c"
  by (induction tag it rule: find_column.induct) (auto simp: Let_def split: if_splits)

lemma find_column_None:
  "find_column tag it = None \<longleftrightarrow> (\<forall>(n, i) \<in> set it. \<not> tag_matches tag (trim_space n))"
  by (induction tag it rule: find_column.induct) (auto simp: Let_def)

lemma bind_fields_binding:
  assumes "entries_wf cf" and "\<forall>f\<in>set fs. field_name f \<noteq> []"
    and "\<forall>j. k \<le> j \<and> j < k + length fs \<longrightarrow> snd ` set (its j) \<subseteq> dom (column_index_to_entry cf)"
  shows "entries_wf (bind_fields its k fs cf) \<and>
     column_binding (bind_fields its k fs cf) = bind_table (chooser_of its) k fs (column_binding cf)"
  using assms
proof (induction fs arbitrary: k cf)
  case Nil
  then show ?case by simp
next
  case (Cons f fs)
  let ?cf1 = "bind_field (its k) f cf"
  have wf1: "entries_wf ?cf1" using Cons.prems(1) by (rule bind_field_wf)
  have dom1: "\<forall>j. Suc k \<le> j \<and> j < Suc k + length fs \<longrightarrow> snd ` set (its j) \<subseteq> dom (column_index_to_entry ?cf1)"
    using Cons.prems(3) by auto
  have IH: "entries_wf (bind_fields its (Suc k) fs ?cf1) \<and>
     column_binding (bind_fields its (Suc k) fs ?cf1) = bind_table (chooser_of its) (Suc k) fs (column_binding ?cf1)"
    using Cons.IH [OF wf1 _ dom1] Cons.prems(2) by simp
  have step: "column_binding ?cf1 =
     (case chooser_of its k f of None \<Rightarrow> column_binding cf
      | Some i \<Rightarrow> (column_binding cf)(i \<mapsto> (field_name f, field_type f)))"
  proof (cases "find_column (field_tag f) (its k)")
    case None
    then show ?thesis using bind_field_binding [OF Cons.prems(1)] by (simp add: chooser_of_def)
  next
    case (Some ci)
    obtain c i where ci: "ci = (c, i)" by fastforce
    with Some have "i \<in> dom (column_index_to_entry cf)"
      using Cons.prems(3) find_column_Some by fastforce
    then show ?thesis
      using Some ci bind_field_binding [OF Cons.prems(1), of "its k" f] Cons.prems(2)
      by (simp add: chooser_of_def)
  qed
  show ?case using IH step by simp
qed

lemma add_column_entries_initial:
  assumes "iteration_order h it0"
  shows "entries_wf (add_column_entries it0 (empty_csv_fields t))
    \<and> column_binding (add_column_entries it0 (empty_csv_fields t)) = Map.empty
    \<and> dom (column_index_to_entry (add_column_entries it0 (empty_csv_fields t))) = snd ` set (header_entries h)"
proof -
  have "entries_wf (empty_csv_fields t)" by (simp add: entries_wf_def empty_csv_fields_def)
  moreover have "column_binding (empty_csv_fields t) = Map.empty"
    by (simp add: column_binding_def column_entry_def empty_csv_fields_def fun_eq_iff)
  moreover have "dom (column_index_to_entry (empty_csv_fields t)) \<inter> set (map snd it0) = {}"
    by (simp add: empty_csv_fields_def)
  ultimately show ?thesis
    using add_column_entries_wf [of "empty_csv_fields t" it0] iteration_order_distinct_snd [OF assms]
      iteration_order_set [OF assms]
    by (simp add: empty_csv_fields_def)
qed

theorem parse_struct_tags_binding:
  assumes "iteration_order h it0" and "\<forall>k<length t. iteration_order h (its k)"
    and "\<forall>f\<in>set t. field_name f \<noteq> []"
  shows "column_binding (parse_struct_tags t h it0 its) = bind_table (chooser_of its) 0 t Map.empty"
proof -
  let ?cf0 = "add_column_entries it0 (empty_csv_fields t)"
  note init = add_column_entries_initial [OF assms(1), of t]
  have "snd ` set (its j) \<subseteq> dom (column_index_to_entry ?cf0)" if "j < length t" for j
  proof -
    have "set (its j) = set (header_entries h)" using assms(2) that iteration_order_set by blast
    then show ?thesis using init by simp
  qed
  then have "\<forall>j. 0 \<le> j \<and> j < 0 + length t \<longrightarrow> snd ` set (its j) \<subseteq> dom (column_index_to_entry ?cf0)"
    by simp
  from bind_fields_binding [OF _ assms(3) this] init
  have "column_binding (bind_fields its 0 t ?cf0) = bind_table (chooser_of its) 0 t Map.empty"
    by simp
  then show ?thesis by (simp only: parse_struct_tags_def)
qed

subsection \<open>Determinism and refinement of the specification\<close>

lemma find_column_filter:
  "find_column tag it =
     (case filter (\<lambda>(n, i). tag_matches tag (trim_space n)) it of
        [] \<Rightarrow> None
      | (n, i) # _ \<Rightarrow> Some (trim_space n, i))"
  by (induction tag it rule: find_column.induct) (auto simp: Let_def)

lemma mset_eq_short_eq:
  assumes "mset xs = mset ys" and "length xs \<le> 1"
  shows "xs = ys"
proof -
  have "length ys = length xs" using assms(1) by (metis size_mset)
  then show ?thesis using assms
    by (cases xs; cases ys) (auto simp: le_Suc_eq)
qed

lemma chooser_unambiguous:
  assumes "iteration_order h it" and "length (matching_entries h f) \<le> 1"
  shows "map_option snd (find_column (field_tag f) it) =
         map_option snd (find_column (field_tag f) (header_entries h))"
proof -
  let ?P = "\<lambda>(n, i). tag_matches (field_tag f) (trim_space n)"
  have "mset (filter ?P it) = mset (filter ?P (header_entries h))"
    using assms(1) by (simp add: iteration_order_def)
  then have "filter ?P it = filter ?P (header_entries h)"
    using assms(2) mset_eq_short_eq [of "filter ?P (header_entries h)" "filter ?P it"]
    by (simp add: matching_entries_def)
  then show ?thesis by (simp add: find_column_filter)
qed

lemma bind_table_cong:
  assumes "\<forall>j. k \<le> j \<and> j < k + length fs \<longrightarrow> (\<forall>f\<in>set fs. ch j f = ch' j f)"
  shows "bind_table ch k fs tbl = bind_table ch' k fs tbl"
  using assms
proof (induction fs arbitrary: k tbl)
  case Nil
  then show ?case by simp
next
  case (Cons f fs)
  have "ch k f = ch' k f" using Cons.prems by simp
  moreover have "\<forall>j. Suc k \<le> j \<and> j < Suc k + length fs \<longrightarrow> (\<forall>f\<in>set fs. ch j f = ch' j f)"
    using Cons.prems by auto
  ultimately show ?case using Cons.IH by simp
qed

lemma code_binding_canonical:
  assumes "iteration_order h it0" and "\<forall>k<length t. iteration_order h (its k)"
    and "\<forall>f\<in>set t. field_name f \<noteq> []" and "unambiguous t h"
  shows "column_binding (parse_struct_tags t h it0 its) =
         bind_table (chooser_of (\<lambda>_. header_entries h)) 0 t Map.empty"
proof -
  have "chooser_of its j f = chooser_of (\<lambda>_. header_entries h) j f"
    if "j < length t" and "f \<in> set t" for j f
  proof -
    have "iteration_order h (its j)" and "length (matching_entries h f) \<le> 1"
      using assms(2,4) that by (auto simp: unambiguous_def)
    then show ?thesis unfolding chooser_of_def by (rule chooser_unambiguous)
  qed
  then have "\<forall>j. 0 \<le> j \<and> j < 0 + length t \<longrightarrow>
     (\<forall>f\<in>set t. chooser_of its j f = chooser_of (\<lambda>_. header_entries h) j f)"
    by simp
  then have "bind_table (chooser_of its) 0 t Map.empty =
      bind_table (chooser_of (\<lambda>_. header_entries h)) 0 t Map.empty"
    by (rule bind_table_cong)
  then show ?thesis using parse_struct_tags_binding [OF assms(1-3)] by simp
qed

lemma header_entries_distinct:
  "distinct h \<Longrightarrow> header_entries h = map (\<lambda>i. (h ! i, i)) [0..<length h]"
proof -
  assume d: "distinct h"
  have "h ! i \<notin> set (drop (Suc i) h)" if "i < length h" for i
    using d that by (metis Cons_nth_drop_Suc distinct_drop distinct.simps(2))
  then show ?thesis by (simp add: header_entries_def)
qed

lemma find_column_ascending:
  "distinct h \<Longrightarrow> map_option snd (find_column (field_tag f) (header_entries h)) = spec_column h f"
proof -
  assume d: "distinct h"
  have "map_option snd (find_column tag (map (\<lambda>i. (h ! i, i)) ixs)) =
        find (\<lambda>i. tag_matches tag (trim_space (h ! i))) ixs" for tag ixs
    by (induction ixs) (auto simp: Let_def)
  then show ?thesis using header_entries_distinct [OF d] by (simp add: spec_column_def)
qed

lemma canonical_refines_spec:
  assumes "distinct h"
  shows "bind_table (chooser_of (\<lambda>_. header_entries h)) 0 t Map.empty = spec_binding t h"
proof -
  have "\<forall>j. 0 \<le> j \<and> j < 0 + length t \<longrightarrow>
     (\<forall>f\<in>set t. chooser_of (\<lambda>_. header_entries h) j f = spec_column h f)"
    using find_column_ascending [OF assms] by (simp add: chooser_of_def)
  then have "bind_table (chooser_of (\<lambda>_. header_entries h)) 0 t Map.empty =
      bind_table (\<lambda>_ f. spec_column h f) 0 t Map.empty"
    by (rule bind_table_cong)
  then show ?thesis by (simp add: spec_binding_def)
qed

lemma bind_fields_wf: "entries_wf cf \<Longrightarrow> entries_wf (bind_fields its k fs cf)"
  by (induction fs arbitrary: k cf) (auto intro: bind_field_wf)

lemma csv_type_add_column_entries [simp]: "csv_type (add_column_entries it cf) = csv_type cf"
  by (induction it arbitrary: cf) (auto simp: alloc_entry_def)

lemma csv_type_bind_field [simp]: "csv_type (bind_field it f cf) = csv_type cf"
  by (simp add: bind_field_def alloc_entry_def Let_def split: option.splits prod.splits)

lemma csv_type_parse_struct_tags [simp]: "csv_type (parse_struct_tags t h it0 its) = t"
proof -
  have "csv_type (bind_fields its k fs cf) = csv_type cf" for k fs cf
    by (induction fs arbitrary: k cf) simp_all
  then show ?thesis by (simp add: parse_struct_tags_def empty_csv_fields_def)
qed

lemma iteration_order_single:
  assumes "header_entries h = [e]" and "iteration_order h it"
  shows "it = [e]"
  using assms by (cases it) (auto simp: iteration_order_def)

subsection \<open>Main properties of the binder\<close>

text \<open>
  C1 (refinement).  For a header whose column texts are distinct and a schema
  whose tags each match at most one column, the binding table that
  \<open>parseStructTags\<close> builds is the binding of the specification, for every pair
  of iteration orders Go's map may choose.
\<close>

theorem binding_refines_spec:
  assumes "distinct h" and "unambiguous t h"
    and "iteration_order h it0" and "\<forall>k<length t. iteration_order h (its k)"
    and "\<forall>f\<in>set t. field_name f \<noteq> []"
  shows "column_binding (parse_struct_tags t h it0 its) = spec_binding t h"
  using code_binding_canonical [OF assms(3-5,2)] canonical_refines_spec [OF assms(1)] by simp

text \<open>
  C2 (determinism).  When every tag matches at most one entry of the header map,
  the binding table does not depend on the order in which Go iterates the map.
\<close>

theorem binding_deterministic:
  assumes "iteration_order h it0" and "\<forall>k<length t. iteration_order h (its k)"
    and "iteration_order h it0'" and "\<forall>k<length t. iteration_order h (its' k)"
    and "\<forall>f\<in>set t. field_name f \<noteq> []" and "unambiguous t h"
  shows "column_binding (parse_struct_tags t h it0 its) = column_binding (parse_struct_tags t h it0' its')"
  using code_binding_canonical [OF assms(1,2,5,6)] code_binding_canonical [OF assms(3,4,5,6)] by simp

text \<open>
  C3 (nondeterminism under an ambiguous tag).  The specification binds a field
  whose tag matches several columns to the lowest of them.  The code scans the
  header map in Go's iteration order: whenever two distinct columns match a
  field's tag, for every first-loop order there are admissible orders of the
  second loop that bind the field to the one column and to the other, so the
  binding depends on the run and differs from the specification's in one of
  them.
\<close>

theorem ambiguous_prefix_order_dependent:
  assumes "(na, a) \<in> set (matching_entries h f)" and "(nb, b) \<in> set (matching_entries h f)" and "a \<noteq> b"
    and "field_name f \<noteq> []" and "iteration_order h it0"
  shows "\<exists>its its'. (\<forall>k. iteration_order h (its k)) \<and> (\<forall>k. iteration_order h (its' k)) \<and>
     column_binding (parse_struct_tags [f] h it0 its) = [a \<mapsto> (field_name f, field_type f)] \<and>
     column_binding (parse_struct_tags [f] h it0 its') = [b \<mapsto> (field_name f, field_type f)]"
proof -
  have first: "(\<forall>k::nat. iteration_order h ((\<lambda>_. (n, i) # remove1 (n, i) (header_entries h)) k)) \<and>
     column_binding (parse_struct_tags [f] h it0 (\<lambda>_. (n, i) # remove1 (n, i) (header_entries h)))
       = [i \<mapsto> (field_name f, field_type f)]"
    if m: "(n, i) \<in> set (matching_entries h f)" for n i
  proof -
    let ?its = "\<lambda>_::nat. (n, i) # remove1 (n, i) (header_entries h)"
    have mem: "(n, i) \<in> set (header_entries h)" and tm: "tag_matches (field_tag f) (trim_space n)"
      using m by (auto simp: matching_entries_def)
    have io: "iteration_order h (?its k)" for k
      using mem by (simp add: iteration_order_def)
    have "column_binding (parse_struct_tags [f] h it0 ?its) = bind_table (chooser_of ?its) 0 [f] Map.empty"
      using io assms(4,5) by (intro parse_struct_tags_binding) simp_all
    also have "\<dots> = [i \<mapsto> (field_name f, field_type f)]"
      using tm by (simp add: chooser_of_def Let_def)
    finally show ?thesis using io by blast
  qed
  show ?thesis
    by (intro exI [of _ "\<lambda>_. (na, a) # remove1 (na, a) (header_entries h)"]
        exI [of _ "\<lambda>_. (nb, b) # remove1 (nb, b) (header_entries h)"])
      (use first [OF assms(1)] first [OF assms(2)] in simp)
qed

text \<open>
  C4 (invariant).  After \<open>parseStructTags\<close> every address held by
  \<open>ColumnIndexToEntry\<close>, \<open>ColumnNameToEntry\<close> and \<open>TagToEntry\<close> is allocated,
  distinct columns hold distinct entries, and each column's entry records its
  own index, for every admissible order of the first loop.
\<close>

theorem parse_struct_tags_wf:
  assumes "iteration_order h it0"
  shows "entries_wf (parse_struct_tags t h it0 its)"
  using add_column_entries_initial [OF assms, of t] bind_fields_wf
  by (simp add: parse_struct_tags_def)

text \<open>
  C18: duplicate header texts.  \<open>headerIndexMap\<close> keeps the last column of a
  repeated text: for the header \<open>[A, A]\<close>, under every admissible map order,
  the earlier column gets no entry at all and a string field tagged \<open>A\<close> is
  bound to column 1, where the specification binds column 0.
\<close>

theorem duplicate_header_last_column:
  assumes "iteration_order [''A'', ''A''] it0" and "\<forall>k<1. iteration_order [''A'', ''A''] (its k)"
  shows "column_binding (parse_struct_tags [sf ''F'' ''string'' ''A''] [''A'', ''A''] it0 its)
           = [1 \<mapsto> (''F'', ''string'')] \<and>
         spec_binding [sf ''F'' ''string'' ''A''] [''A'', ''A''] = [0 \<mapsto> (''F'', ''string'')]"
proof -
  have he: "header_entries [''A'', ''A''] = [(''A'', 1)]" by (simp add: header_entries_def)
  have "it0 = [(''A'', 1)]" using iteration_order_single [OF he assms(1)] .
  moreover have "its 0 = [(''A'', 1)]" using iteration_order_single [OF he] assms(2) by simp
  ultimately show ?thesis by (simp add: binder_eval go_eval fun_eq_iff)
qed

subsection \<open>Witnesses\<close>

text \<open>
  The scenario of the specification (section 8): header \<open>[A, B;extra]\<close> and the
  schema \<open>F1\<close> with tag \<open>A\<close>, \<open>F2\<close> with tag \<open>B...\<close>, under map orders that
  are not ascending.
\<close>

theorem binding_refines_spec_witness:
  "iteration_order [''A'', ''B;extra''] [(''B;extra'', 1), (''A'', 0)] \<and>
   column_binding (parse_struct_tags [sf ''F1'' ''string'' ''A'', sf ''F2'' ''string'' ''B...''] [''A'', ''B;extra'']
      [(''B;extra'', 1), (''A'', 0)] (\<lambda>_. [(''B;extra'', 1), (''A'', 0)]))
     = spec_binding [sf ''F1'' ''string'' ''A'', sf ''F2'' ''string'' ''B...''] [''A'', ''B;extra''] \<and>
   spec_binding [sf ''F1'' ''string'' ''A'', sf ''F2'' ''string'' ''B...''] [''A'', ''B;extra'']
     = [0 \<mapsto> (''F1'', ''string''), 1 \<mapsto> (''F2'', ''string'')]"
proof -
  let ?t = "[sf ''F1'' ''string'' ''A'', sf ''F2'' ''string'' ''B...'']"
  let ?h = "[''A'', ''B;extra'']"
  let ?o = "[(''B;extra'', 1), (''A'', 0)]"
  have h1: "distinct ?h" by simp
  have h2: "unambiguous ?t ?h" by (simp add: binder_eval go_eval)
  have h3: "iteration_order ?h ?o" by (simp add: binder_eval)
  have h4: "\<forall>k<length ?t. iteration_order ?h ((\<lambda>_. ?o) k)" by (simp add: binder_eval)
  have h5: "\<forall>f\<in>set ?t. field_name f \<noteq> []" by (simp add: sf_def)
  have spec: "spec_binding ?t ?h = [0 \<mapsto> (''F1'', ''string''), 1 \<mapsto> (''F2'', ''string'')]"
    by (simp add: binder_eval go_eval fun_eq_iff)
  show ?thesis using binding_refines_spec [OF h1 h2 h3 h4 h5] h3 spec by simp
qed

theorem binding_deterministic_witness:
  "column_binding (parse_struct_tags [sf ''F1'' ''string'' ''A'', sf ''F2'' ''string'' ''B...''] [''A'', ''B;extra'']
      [(''A'', 0), (''B;extra'', 1)] (\<lambda>_. [(''A'', 0), (''B;extra'', 1)]))
   = column_binding (parse_struct_tags [sf ''F1'' ''string'' ''A'', sf ''F2'' ''string'' ''B...''] [''A'', ''B;extra'']
      [(''B;extra'', 1), (''A'', 0)] (\<lambda>_. [(''B;extra'', 1), (''A'', 0)]))"
proof -
  let ?t = "[sf ''F1'' ''string'' ''A'', sf ''F2'' ''string'' ''B...'']"
  let ?h = "[''A'', ''B;extra'']"
  let ?o1 = "[(''A'', 0), (''B;extra'', 1)]"
  let ?o2 = "[(''B;extra'', 1), (''A'', 0)]"
  have h1: "iteration_order ?h ?o1" by (simp add: binder_eval)
  have h2: "\<forall>k<length ?t. iteration_order ?h ((\<lambda>_. ?o1) k)" by (simp add: binder_eval)
  have h3: "iteration_order ?h ?o2" by (simp add: binder_eval)
  have h4: "\<forall>k<length ?t. iteration_order ?h ((\<lambda>_. ?o2) k)" by (simp add: binder_eval)
  have h5: "\<forall>f\<in>set ?t. field_name f \<noteq> []" by (simp add: sf_def)
  have h6: "unambiguous ?t ?h" by (simp add: binder_eval go_eval)
  show ?thesis using binding_deterministic [OF h1 h2 h3 h4 h5 h6] .
qed

theorem parse_struct_tags_wf_witness:
  "iteration_order [''A'', ''B;extra''] [(''B;extra'', 1), (''A'', 0)] \<and>
   entries_wf (parse_struct_tags comune_struct [''A'', ''B;extra''] [(''B;extra'', 1), (''A'', 0)]
      (\<lambda>_. [(''A'', 0), (''B;extra'', 1)]))"
proof -
  have h: "iteration_order [''A'', ''B;extra''] [(''B;extra'', 1), (''A'', 0)]" by (simp add: binder_eval)
  show ?thesis using parse_struct_tags_wf [OF h] h by simp
qed

theorem duplicate_header_last_column_witness:
  "column_binding (parse_struct_tags [sf ''F'' ''string'' ''A''] [''A'', ''A''] [(''A'', 1)] (\<lambda>_. [(''A'', 1)]))
     = [1 \<mapsto> (''F'', ''string'')] \<and>
   spec_binding [sf ''F'' ''string'' ''A''] [''A'', ''A''] = [0 \<mapsto> (''F'', ''string'')]"
  by (rule duplicate_header_last_column) (simp_all add: iteration_order_def header_entries_def)

theorem ambiguous_prefix_order_dependent_witness:
  "(\<exists>its its'. (\<forall>k. iteration_order [''Codice A'', ''Codice B''] (its k)) \<and>
      (\<forall>k. iteration_order [''Codice A'', ''Codice B''] (its' k)) \<and>
      column_binding (parse_struct_tags [sf ''F'' ''string'' ''Codice...''] [''Codice A'', ''Codice B'']
        [(''Codice A'', 0), (''Codice B'', 1)] its) = [0 \<mapsto> (''F'', ''string'')] \<and>
      column_binding (parse_struct_tags [sf ''F'' ''string'' ''Codice...''] [''Codice A'', ''Codice B'']
        [(''Codice A'', 0), (''Codice B'', 1)] its') = [1 \<mapsto> (''F'', ''string'')]) \<and>
   spec_binding [sf ''F'' ''string'' ''Codice...''] [''Codice A'', ''Codice B''] = [0 \<mapsto> (''F'', ''string'')]"
proof -
  let ?f = "sf ''F'' ''string'' ''Codice...''"
  let ?h = "[''Codice A'', ''Codice B'']"
  have m0: "(''Codice A'', 0) \<in> set (matching_entries ?h ?f)" by (simp add: binder_eval go_eval)
  have m1: "(''Codice B'', 1) \<in> set (matching_entries ?h ?f)" by (simp add: binder_eval go_eval)
  have n: "field_name ?f \<noteq> []" by (simp add: sf_def)
  have io: "iteration_order ?h [(''Codice A'', 0), (''Codice B'', 1)]" by (simp add: binder_eval)
  have sp: "spec_binding [?f] ?h = [0 \<mapsto> (''F'', ''string'')]" by (simp add: binder_eval go_eval fun_eq_iff)
  show ?thesis using ambiguous_prefix_order_dependent [OF m0 m1 _ n io] sp by (simp add: sf_def)
qed

end
