(* ===== verification/StrConv.thy ===== *)
theory StrConv
  imports Prelude
begin

text \<open>
  The cell parsers of the converter, \<open>parseBoolField\<close>, \<open>parseInt32Field\<close> and
  \<open>parseInt64Field\<close> (\<open>src/cmd/go-comuni/main.go\<close>, lines 148--170), and the
  functions of Go's \<open>strconv\<close> package they call with base 10:
  \<open>ParseBool\<close>, \<open>ParseUint\<close> and \<open>ParseInt\<close>.  \<open>strconv\<close> is library code and is
  modelled from its documented behaviour and its implementation: the
  accumulator of \<open>ParseUint\<close> is a \<open>uint64\<close>, kept here as a \<open>64 word\<close> whose
  multiplication and addition wrap, with the library's overflow tests; an
  \<open>int64\<close> result is the \<open>64 word\<close> of the same bits, read with \<open>sint\<close>; and a
  function that returns a value and an error returns the pair of them.
  \<open>bitSize\<close> is a \<open>nat\<close>: the converter passes only 32 and 64.
\<close>

datatype num_err = ErrSyntax | ErrRange | ErrBitSize

text \<open>\<open>*strconv.NumError\<close>: the function, the input and the cause.\<close>

record num_error =
  ne_func :: string
  ne_num :: string
  ne_err :: num_err

definition syntax_error :: "string \<Rightarrow> string \<Rightarrow> num_error" where
  "syntax_error fn s = \<lparr>ne_func = fn, ne_num = s, ne_err = ErrSyntax\<rparr>"

definition range_error :: "string \<Rightarrow> string \<Rightarrow> num_error" where
  "range_error fn s = \<lparr>ne_func = fn, ne_num = s, ne_err = ErrRange\<rparr>"

definition bit_size_error :: "string \<Rightarrow> string \<Rightarrow> num_error" where
  "bit_size_error fn s = \<lparr>ne_func = fn, ne_num = s, ne_err = ErrBitSize\<rparr>"

text \<open>\<open>strconv.ParseBool\<close>.\<close>

definition parse_bool :: "string \<Rightarrow> num_error + bool" where
  "parse_bool str =
     (if str \<in> set [''1'', ''t'', ''T'', ''TRUE'', ''true'', ''True''] then Inr True
      else if str \<in> set [''0'', ''f'', ''F'', ''FALSE'', ''false'', ''False''] then Inr False
      else Inl (syntax_error ''ParseBool'' str))"

definition is_digit :: "char \<Rightarrow> bool" where
  "is_digit c \<longleftrightarrow> 0x30 \<le> byte_val c \<and> byte_val c \<le> 0x39"

text \<open>\<open>cutoff = maxUint64/10 + 1\<close>: the least \<open>n\<close> for which \<open>n * 10\<close> overflows.\<close>

definition cutoff10 :: "64 word" where
  "cutoff10 = (- 1) div 10 + 1"

text \<open>
  The digit loop of \<open>ParseUint\<close> for base 10.  A byte outside \<open>0\<close>--\<open>9\<close> is a
  syntax error (a letter decodes to a digit value of at least 10, which base 10
  rejects the same way); an overflow returns \<open>maxVal\<close> with a range error.
\<close>

fun parse_uint_digits :: "64 word \<Rightarrow> bytes \<Rightarrow> 64 word \<Rightarrow> 64 word \<times> num_err option" where
  "parse_uint_digits max_val [] n = (n, None)"
| "parse_uint_digits max_val (c # cs) n =
     (if \<not> is_digit c then (0, Some ErrSyntax)
      else let d = (of_nat (byte_val c - 0x30) :: 64 word) in
        if cutoff10 \<le> n then (max_val, Some ErrRange)
        else let n' = n * 10; n1 = n' + d in
          if n1 < n' \<or> max_val < n1 then (max_val, Some ErrRange)
          else parse_uint_digits max_val cs n1)"

text \<open>\<open>strconv.ParseUint(s, 10, bitSize)\<close>; \<open>maxVal = 1<<bitSize - 1\<close> wraps to all ones for 64.\<close>

definition parse_uint :: "string \<Rightarrow> nat \<Rightarrow> 64 word \<times> num_error option" where
  "parse_uint s bit_size =
     (if s = [] then (0, Some (syntax_error ''ParseUint'' s))
      else
        let bs = (if bit_size = 0 then 64 else bit_size) in
        if 64 < bs then (0, Some (bit_size_error ''ParseUint'' s))
        else
          let max_val = push_bit bs 1 - 1 in
          (case parse_uint_digits max_val s 0 of
             (n, None) \<Rightarrow> (n, None)
           | (n, Some k) \<Rightarrow> (n, Some \<lparr>ne_func = ''ParseUint'', ne_num = s, ne_err = k\<rparr>)))"

text \<open>
  \<open>strconv.ParseInt(s, 10, bitSize)\<close>: an optional sign, then \<open>ParseUint\<close>; a range
  error of \<open>ParseUint\<close> is not returned at once but falls through to the signed
  range checks against \<open>cutoff = 1 << (bitSize - 1)\<close>.
\<close>

definition parse_int :: "string \<Rightarrow> nat \<Rightarrow> 64 word \<times> num_error option" where
  "parse_int s bit_size =
     (if s = [] then (0, Some (syntax_error ''ParseInt'' s))
      else
        let s0 = s;
            (neg, s1) = (if hd s = CHR ''+'' then (False, tl s)
                         else if hd s = CHR ''-'' then (True, tl s) else (False, s));
            (un, err) = parse_uint s1 bit_size
        in case (case err of Some e \<Rightarrow> if ne_err e \<noteq> ErrRange then Some e else None | None \<Rightarrow> None) of
             Some e \<Rightarrow> (0, Some (e\<lparr>ne_func := ''ParseInt'', ne_num := s0\<rparr>))
           | None \<Rightarrow>
               let bs = (if bit_size = 0 then 64 else bit_size);
                   cutoff = push_bit (bs - 1) (1 :: 64 word)
               in if \<not> neg \<and> cutoff \<le> un then (cutoff - 1, Some (range_error ''ParseInt'' s0))
                  else if neg \<and> cutoff < un then (- cutoff, Some (range_error ''ParseInt'' s0))
                  else (if neg then - un else un, None))"

subsection \<open>The field parsers of main.go\<close>

datatype field_error =
    BoolFieldError string string num_error
  | IntFieldError string string num_error

text \<open>\<open>parseBoolField\<close>, \<open>parseInt32Field\<close> (\<open>int32(value)\<close> keeps the low 32 bits), \<open>parseInt64Field\<close>.\<close>

definition parse_bool_field :: "string \<Rightarrow> string \<Rightarrow> field_error + bool" where
  "parse_bool_field field_name value =
     (case parse_bool value of
        Inl err \<Rightarrow> Inl (BoolFieldError field_name value err)
      | Inr b \<Rightarrow> Inr b)"

definition parse_int32_field :: "string \<Rightarrow> string \<Rightarrow> field_error + 32 word" where
  "parse_int32_field field_name value =
     (case parse_int value 32 of
        (_, Some err) \<Rightarrow> Inl (IntFieldError field_name value err)
      | (v, None) \<Rightarrow> Inr (scast v))"

definition parse_int64_field :: "string \<Rightarrow> string \<Rightarrow> field_error + 64 word" where
  "parse_int64_field field_name value =
     (case parse_int value 64 of
        (_, Some err) \<Rightarrow> Inl (IntFieldError field_name value err)
      | (v, None) \<Rightarrow> Inr v)"


subsection \<open>Decimal numerals\<close>

text \<open>
  The value of a string of decimal digits after an accumulator \<open>a\<close>, and the
  integer a string denotes when it is an optional sign followed by at least one
  decimal digit: the reading of a base-10 integer that \<open>ParseInt\<close> implements.
\<close>

definition digits_value :: "nat \<Rightarrow> bytes \<Rightarrow> nat" where
  "digits_value a cs = foldl (\<lambda>n c. 10 * n + (byte_val c - 0x30)) a cs"

definition dec_int :: "string \<Rightarrow> int option" where
  "dec_int s =
     (let (neg, ds) = (case s of
                         c # cs \<Rightarrow> if c = CHR ''+'' then (False, cs)
                                  else if c = CHR ''-'' then (True, cs) else (False, s)
                       | [] \<Rightarrow> (False, []))
      in if ds \<noteq> [] \<and> list_all is_digit ds
         then Some (if neg then - int (digits_value 0 ds) else int (digits_value 0 ds))
         else None)"

section \<open>Properties\<close>

subsection \<open>Machine words\<close>

lemma unat_lt_len: "unat (w :: 'a::len word) < 2 ^ LENGTH('a)"
  by (rule unsigned_less)

lemma digits_value_Cons [simp]:
  "digits_value a (c # cs) = digits_value (10 * a + (byte_val c - 0x30)) cs"
  by (simp add: digits_value_def)

lemma digits_value_Nil [simp]: "digits_value a [] = a"
  by (simp add: digits_value_def)

lemma digits_value_ge: "a \<le> digits_value a cs"
proof (induction cs arbitrary: a)
  case Nil
  then show ?case by simp
next
  case (Cons c cs)
  have "a \<le> 10 * a + (byte_val c - 0x30)" by simp
  also have "\<dots> \<le> digits_value (10 * a + (byte_val c - 0x30)) cs" by (rule Cons.IH)
  finally show ?case by simp
qed

lemma unat_cutoff10: "unat cutoff10 = 1844674407370955162"
  by (simp add: cutoff10_def)

lemma digit_val_lt: "is_digit c \<Longrightarrow> byte_val c - 0x30 < 10"
  unfolding is_digit_def by linarith

text \<open>
  One step of the digit loop below \<open>cutoff10\<close>: the two overflow tests of
  \<open>ParseUint\<close> on the wrapped \<open>n * 10 + d\<close> fail exactly when the exact value
  \<open>10 * n + d\<close> is at most \<open>maxVal\<close>, and then the word holds the exact value.
\<close>

lemma digit_step_wrapped:
  assumes "unat n < 1844674407370955162" and "d < 10"
  shows "unat (n * 10 + of_nat d :: 64 word) =
           (if 10 * unat n + d < 2 ^ 64 then 10 * unat n + d else 10 * unat n + d - 2 ^ 64)"
    and "unat (n * 10) = 10 * unat n"
proof -
  show m: "unat (n * 10) = 10 * unat n" using assms(1) unat_mult_lem [of n 10] by simp
  have s: "unat (n * 10 + of_nat d) = (10 * unat n + d) mod 2 ^ 64"
    using m assms(2) by (simp add: unat_word_ariths unat_of_nat)
  have lt: "10 * unat n + d - 2 ^ 64 < (2::nat) ^ 64"
    using m unat_lt_len [of "n * 10"] assms(2) by simp
  show "unat (n * 10 + of_nat d :: 64 word) =
          (if 10 * unat n + d < 2 ^ 64 then 10 * unat n + d else 10 * unat n + d - 2 ^ 64)"
  proof (cases "10 * unat n + d < 2 ^ 64")
    case False
    then have "(10 * unat n + d) mod 2 ^ 64 = (10 * unat n + d - 2 ^ 64) mod 2 ^ 64"
      by (simp add: le_mod_geq)
    also have "\<dots> = 10 * unat n + d - 2 ^ 64" using lt by (rule mod_less)
    finally show ?thesis using s False by simp
  qed (simp add: s)
qed

lemma digit_step_overflow:
  assumes "unat n < 1844674407370955162" and "d < 10"
  shows "(n * 10 + of_nat d < n * 10 \<or> mv < n * 10 + (of_nat d :: 64 word)) \<longleftrightarrow> unat mv < 10 * unat n + d"
proof -
  have mv: "unat mv < 2 ^ 64" using unat_lt_len [of mv] by simp
  note w = digit_step_wrapped [OF assms]
  show ?thesis
  proof (cases "10 * unat n + d < 2 ^ 64")
    case True
    then show ?thesis using w by (simp add: word_less_nat_alt)
  next
    case False
    then have "n * 10 + of_nat d < n * 10" using w assms(2) by (simp add: word_less_nat_alt)
    then show ?thesis using False mv by simp
  qed
qed

lemma parse_uint_digits_ok:
  assumes "unat n \<le> unat mv"
  shows "parse_uint_digits mv cs n = (v, None) \<longleftrightarrow>
     list_all is_digit cs \<and> digits_value (unat n) cs \<le> unat mv \<and> v = of_nat (digits_value (unat n) cs)"
  using assms
proof (induction cs arbitrary: n)
  case Nil
  then show ?case by auto
next
  case (Cons c cs)
  show ?case
  proof (cases "is_digit c")
    case False
    then show ?thesis by simp
  next
    case True
    define dd where "dd = byte_val c - 0x30"
    have dd: "dd < 10" using True by (simp add: dd_def digit_val_lt)
    have mv: "unat mv < 2 ^ 64" using unat_lt_len [of mv] by simp
    show ?thesis
    proof (cases "cutoff10 \<le> n")
      case True
      then have "1844674407370955162 \<le> unat n" by (simp add: word_le_nat_alt unat_cutoff10)
      then have "unat mv < 10 * unat n + dd" using mv by simp
      also have "\<dots> \<le> digits_value (10 * unat n + dd) cs" by (rule digits_value_ge)
      finally show ?thesis using True \<open>is_digit c\<close> by (simp add: dd_def)
    next
      case False
      then have small: "unat n < 1844674407370955162" by (simp add: word_le_nat_alt unat_cutoff10 not_le)
      note ovf = digit_step_overflow [OF small dd, of mv]
      show ?thesis
      proof (cases "unat mv < 10 * unat n + dd")
        case True
        have "unat mv < digits_value (10 * unat n + dd) cs"
          using True digits_value_ge [of "10 * unat n + dd" cs] by simp
        then show ?thesis using ovf True False \<open>is_digit c\<close> by (simp add: Let_def dd_def)
      next
        case big: False
        then have s: "unat (n * 10 + of_nat dd) = 10 * unat n + dd"
          using digit_step_wrapped (1) [OF small dd] mv by simp
        then have "unat (n * 10 + of_nat dd) \<le> unat mv" using big by simp
        from Cons.IH [OF this] ovf big False \<open>is_digit c\<close> s show ?thesis
          by (simp add: Let_def dd_def)
      qed
    qed
  qed
qed

lemma sint_of_nat_small:
  assumes "v < 2 ^ 63"
  shows "sint (of_nat v :: 64 word) = int v"
proof -
  have "signed_take_bit 63 (int v) = int v"
    using assms by (intro signed_take_bit_int_eq_self) simp_all
  then show ?thesis using signed_of_nat [of v, where 'b = 64] by simp
qed

lemma sint_neg_of_nat_small:
  assumes "v \<le> 2 ^ 63"
  shows "sint (- of_nat v :: 64 word) = - int v"
proof -
  have w: "(- of_nat v :: 64 word) = word_of_int (- int v)" by simp
  have "signed_take_bit 63 (- int v) = - int v"
    using assms by (intro signed_take_bit_int_eq_self) simp_all
  then show ?thesis unfolding w using signed_of_int [of "- int v", where 'b = 64] by simp
qed

lemma unat_max_val:
  assumes "0 < bs" and "bs \<le> 64"
  shows "unat (push_bit bs 1 - 1 :: 64 word) = 2 ^ bs - 1"
proof -
  have "(of_nat (2 ^ bs - 1) :: 64 word) = of_nat (2 ^ bs) - 1"
    by (subst of_nat_diff) simp_all
  also have "\<dots> = push_bit bs 1 - 1" by (simp add: push_bit_of_1)
  finally have eq: "(push_bit bs 1 - 1 :: 64 word) = of_nat (2 ^ bs - 1)" ..
  have "(2::nat) ^ bs - 1 < 2 ^ bs" by simp
  also have "(2::nat) ^ bs \<le> 2 ^ 64" using assms(2) by (rule power_increasing) simp
  finally have "(2::nat) ^ bs - 1 < 2 ^ LENGTH(64)" by simp
  then show ?thesis unfolding eq unat_of_nat by (rule mod_less)
qed

lemma unat_cutoff:
  assumes "0 < bs" and "bs \<le> 64"
  shows "unat (push_bit (bs - 1) 1 :: 64 word) = 2 ^ (bs - 1)"
proof -
  have eq: "(push_bit (bs - 1) 1 :: 64 word) = of_nat (2 ^ (bs - 1))" by simp
  have "(2::nat) ^ (bs - 1) < 2 ^ 64" using assms by (intro power_strict_increasing) simp_all
  then show ?thesis unfolding eq unat_of_nat by simp
qed


lemma parse_uint_ok:
  assumes "0 < bs" and "bs \<le> 64"
  shows "parse_uint s bs = (v, None) \<longleftrightarrow>
     s \<noteq> [] \<and> list_all is_digit s \<and> digits_value 0 s < 2 ^ bs \<and> v = of_nat (digits_value 0 s)"
proof -
  have pu: "parse_uint s bs = (v, None) \<longleftrightarrow> s \<noteq> [] \<and> parse_uint_digits (push_bit bs 1 - 1) s 0 = (v, None)"
    using assms by (auto simp: parse_uint_def Let_def split: prod.splits option.splits)
  have "0 < (2::nat) ^ bs" by simp
  then have "digits_value 0 s \<le> 2 ^ bs - 1 \<longleftrightarrow> digits_value 0 s < 2 ^ bs" by linarith
  then show ?thesis
    using pu parse_uint_digits_ok [of 0 "push_bit bs 1 - 1" s v] unat_max_val [OF assms] by auto
qed

lemma parse_uint_digits_err:
  "parse_uint_digits mv cs n = (r, Some k) \<Longrightarrow> k = ErrSyntax \<or> (k = ErrRange \<and> r = mv)"
  by (induction mv cs n rule: parse_uint_digits.induct) (auto simp: Let_def split: if_splits)

lemma parse_uint_range_err:
  assumes "parse_uint s bs = (un, Some e)" and "0 < bs" and "bs \<le> 64" and "ne_err e = ErrRange"
  shows "un = push_bit bs 1 - 1"
  using assms
  by (auto simp: parse_uint_def syntax_error_def Let_def split: if_splits prod.splits option.splits
      dest: parse_uint_digits_err)


lemma sint_of_nat_iff:
  assumes "d < 2 ^ 63"
  shows "sint (v :: 64 word) = int d \<longleftrightarrow> v = of_nat d"
proof
  assume "sint v = int d"
  then have "sint v = sint (of_nat d :: 64 word)" using sint_of_nat_small [OF assms] by simp
  then show "v = of_nat d" by (rule signed_word_eqI)
qed (simp add: sint_of_nat_small [OF assms])

lemma sint_neg_of_nat_iff:
  assumes "d \<le> 2 ^ 63"
  shows "sint (v :: 64 word) = - int d \<longleftrightarrow> v = - of_nat d"
proof
  assume "sint v = - int d"
  then have "sint v = sint (- of_nat d :: 64 word)" using sint_neg_of_nat_small [OF assms] by simp
  then show "v = - of_nat d" by (rule signed_word_eqI)
qed (simp add: sint_neg_of_nat_small [OF assms])

lemma parse_int_ok:
  assumes "2 \<le> bs" and "bs \<le> 64"
  shows "parse_int s bs = (v, None) \<longleftrightarrow>
     (\<exists>x. dec_int s = Some x \<and> - (2 ^ (bs - 1)) \<le> x \<and> x < 2 ^ (bs - 1) \<and> sint v = x)"
proof (cases s)
  case Nil
  then show ?thesis by (simp add: parse_int_def dec_int_def)
next
  case (Cons c cs)
  define neg where "neg = (c = CHR ''-'')"
  define s1 where "s1 = (if c = CHR ''+'' \<or> c = CHR ''-'' then cs else s)"
  define cutoff where "cutoff = (push_bit (bs - 1) 1 :: 64 word)"
  define D where "D = digits_value 0 s1"
  obtain un err where pu: "parse_uint s1 bs = (un, err)" by fastforce
  have bs: "0 < bs" "bs \<le> 64" using assms by simp_all
  have pi: "parse_int (c # cs) bs =
     (case (case err of Some e \<Rightarrow> if ne_err e \<noteq> ErrRange then Some e else None | None \<Rightarrow> None) of
        Some e \<Rightarrow> (0, Some (e\<lparr>ne_func := ''ParseInt'', ne_num := c # cs\<rparr>))
      | None \<Rightarrow>
          if \<not> neg \<and> cutoff \<le> un then (cutoff - 1, Some (range_error ''ParseInt'' (c # cs)))
          else if neg \<and> cutoff < un then (- cutoff, Some (range_error ''ParseInt'' (c # cs)))
          else (if neg then - un else un, None))"
    using bs pu unfolding cutoff_def Cons
    by (cases "c = CHR ''+''"; cases "c = CHR ''-''")
      (simp_all add: parse_int_def neg_def s1_def Cons Let_def split: option.split)
  have di: "dec_int s = (if s1 \<noteq> [] \<and> list_all is_digit s1
                          then Some (if neg then - int D else int D) else None)"
    by (simp add: dec_int_def Cons neg_def s1_def D_def)
  have cut: "unat cutoff = 2 ^ (bs - 1)" unfolding cutoff_def by (rule unat_cutoff [OF bs])
  have pow: "(2::nat) ^ bs = 2 * 2 ^ (bs - 1)" using bs by (cases bs) simp_all
  have small: "(2::nat) ^ (bs - 1) \<le> 2 ^ 63" using bs by (intro power_increasing) simp_all
  show ?thesis
  proof (cases err)
    case None
    then have ok: "s1 \<noteq> [] \<and> list_all is_digit s1 \<and> D < 2 ^ bs \<and> un = of_nat D"
      using parse_uint_ok [OF bs, of s1 un] pu by (simp add: D_def)
    have "(2::nat) ^ bs \<le> 2 ^ 64" using bs by (intro power_increasing) simp_all
    then have "D < 2 ^ LENGTH(64)" using ok by simp
    then have uD: "unat un = D" using ok by (simp add: unat_of_nat)
    have le: "cutoff \<le> un \<longleftrightarrow> 2 ^ (bs - 1) \<le> D" by (simp add: word_le_nat_alt cut uD)
    have lt: "cutoff < un \<longleftrightarrow> 2 ^ (bs - 1) < D" by (simp add: word_less_nat_alt cut uD)
    show ?thesis
    proof (cases neg)
      case True
      have "parse_int s bs = (v, None) \<longleftrightarrow> D \<le> 2 ^ (bs - 1) \<and> v = - of_nat D"
        using pi None True lt ok Cons by auto
      also have "\<dots> \<longleftrightarrow> (\<exists>x. dec_int s = Some x \<and> - (2 ^ (bs - 1)) \<le> x \<and> x < 2 ^ (bs - 1) \<and> sint v = x)"
      proof -
        have "- int D \<le> 0" and "(0::int) < 2 ^ (bs - 1)" by simp_all
        then have "- int D < 2 ^ (bs - 1)" by linarith
        then show ?thesis using di ok True small sint_neg_of_nat_iff [of D v] by auto
      qed
      finally show ?thesis .
    next
      case False
      have "parse_int s bs = (v, None) \<longleftrightarrow> D < 2 ^ (bs - 1) \<and> v = of_nat D"
        using pi None False le ok Cons by auto
      also have "\<dots> \<longleftrightarrow> (\<exists>x. dec_int s = Some x \<and> - (2 ^ (bs - 1)) \<le> x \<and> x < 2 ^ (bs - 1) \<and> sint v = x)"
      proof -
        have "0 \<le> int D" and "(0::int) < 2 ^ (bs - 1)" by simp_all
        then have "- (2 ^ (bs - 1)) \<le> int D" by linarith
        then show ?thesis using di ok False small sint_of_nat_iff [of D v] by auto
      qed
      finally show ?thesis .
    qed
  next
    case (Some e)
    have "\<not> (s1 \<noteq> [] \<and> list_all is_digit s1 \<and> D < 2 ^ bs)"
      using parse_uint_ok [OF bs, of s1 "of_nat D"] pu Some by (auto simp: D_def)
    moreover have "(2::nat) ^ (bs - 1) < 2 ^ bs" using bs by simp
    moreover have "D \<le> 2 ^ (bs - 1)"
      if "dec_int s = Some x" and "- (2 ^ (bs - 1)) \<le> x" and "x < 2 ^ (bs - 1)" for x
      using that di by (auto split: if_splits)
    ultimately have rhs: "\<not> (\<exists>x. dec_int s = Some x \<and> - (2 ^ (bs - 1)) \<le> x \<and> x < 2 ^ (bs - 1))"
      using di by (metis (no_types, lifting) le_less_trans option.distinct(1))
    have "parse_int s bs \<noteq> (v, None)"
    proof (cases "ne_err e = ErrRange")
      case True
      then have "un = push_bit bs 1 - 1" using parse_uint_range_err [OF _ bs] pu Some by simp
      then have "unat un = 2 ^ bs - 1" using unat_max_val [OF bs] by simp
      moreover have "(2::nat) \<le> 2 ^ (bs - 1)" using power_increasing [of 1 "bs - 1" "2::nat"] assms by simp
      ultimately have "2 ^ (bs - 1) < unat un" using pow by linarith
      then have "cutoff \<le> un" "cutoff < un" by (simp_all add: word_le_nat_alt word_less_nat_alt cut)
      then show ?thesis using pi Some True Cons by auto
    next
      case False
      then show ?thesis using pi Some Cons by simp
    qed
    then show ?thesis using rhs by blast
  qed
qed

lemma sint_word_of_int_small:
  assumes "- (2 ^ (LENGTH('a) - 1)) \<le> i" and "i < 2 ^ (LENGTH('a) - 1)"
  shows "sint (word_of_int i :: 'a::len word) = i"
  using assms by (simp add: sint_sbintrunc' signed_take_bit_int_eq_self)

lemma sint_scast_small:
  assumes "- (2 ^ 31) \<le> sint v" and "sint v < 2 ^ 31"
  shows "sint (scast (v :: 64 word) :: 32 word) = sint v"
  using assms by (simp add: signed_scast_eq signed_take_bit_int_eq_self)

lemma parse_int64_field_Inr:
  "parse_int64_field fname s = Inr w \<longleftrightarrow> parse_int s 64 = (w, None)"
  by (auto simp: parse_int64_field_def split: prod.splits option.splits)

lemma parse_int32_field_Inr:
  "parse_int32_field fname s = Inr w \<longleftrightarrow> (\<exists>v. parse_int s 32 = (v, None) \<and> w = scast v)"
  by (auto simp: parse_int32_field_def split: prod.splits option.splits)

subsection \<open>The field parsers\<close>

text \<open>
  C5: \<open>parseInt32Field\<close> succeeds exactly on the strings that are an optional sign
  followed by decimal digits whose value lies in the \<open>int32\<close> range, and its result
  is that value.
\<close>

theorem parse_int32_field_ok:
  "parse_int32_field fname s = Inr w \<longleftrightarrow>
     (\<exists>x. dec_int s = Some x \<and> - (2 ^ 31) \<le> x \<and> x < 2 ^ 31 \<and> sint w = x)"
proof
  assume "parse_int32_field fname s = Inr w"
  then obtain v where pv: "parse_int s 32 = (v, None)" and w: "w = scast v"
    by (auto simp: parse_int32_field_Inr)
  then obtain x where "dec_int s = Some x" "- (2 ^ 31) \<le> x" "x < 2 ^ 31" "sint v = x"
    using parse_int_ok [of 32 s v] by auto
  then show "\<exists>x. dec_int s = Some x \<and> - (2 ^ 31) \<le> x \<and> x < 2 ^ 31 \<and> sint w = x"
    using w sint_scast_small [of v] by auto
next
  assume "\<exists>x. dec_int s = Some x \<and> - (2 ^ 31) \<le> x \<and> x < 2 ^ 31 \<and> sint w = x"
  then obtain x where x: "dec_int s = Some x" "- (2 ^ 31) \<le> x" "x < 2 ^ 31" "sint w = x"
    by blast
  define v where "v = (word_of_int x :: 64 word)"
  have sv: "sint v = x" using x(2,3) unfolding v_def by (intro sint_word_of_int_small) simp_all
  then have "parse_int s 32 = (v, None)" using parse_int_ok [of 32 s v] x by auto
  moreover have "sint (scast v :: 32 word) = sint w" using sv x sint_scast_small [of v] by simp
  then have "scast v = w" by (rule signed_word_eqI)
  ultimately show "parse_int32_field fname s = Inr w" by (auto simp: parse_int32_field_Inr)
qed

text \<open>
  C6: \<open>parseInt64Field\<close> succeeds exactly on the strings that are an optional sign
  followed by decimal digits whose value lies in the \<open>int64\<close> range, and the
  \<open>int64\<close> it returns is that value.
\<close>

theorem parse_int64_field_ok:
  "parse_int64_field fname s = Inr w \<longleftrightarrow>
     (\<exists>x. dec_int s = Some x \<and> - (2 ^ 63) \<le> x \<and> x < 2 ^ 63 \<and> sint w = x)"
  using parse_int_ok [of 64 s w] by (simp add: parse_int64_field_Inr)

end
