(* ===== verification/Materializer.thy ===== *)
theory Materializer
  imports Binder StrConv
begin

text \<open>
  The record materializer: the loop of \<open>doConvert\<close> (\<open>src/cmd/go-comuni/main.go\<close>,
  lines 203--246) that turns each body row into a \<open>comuni.Comune\<close>.  For each
  cell it looks up the entry of the cell's column in \<open>ColumnIndexToEntry\<close>, skips
  the cell when there is none or the entry names no field, and otherwise stores
  the cell into the field by the field's type name.  \<open>log.Fatalf\<close> ends the
  process: it is the error value \<open>Inl\<close> of the result, and so is the panic of
  \<open>getField\<close>.  A row is the struct after its cells; the loop appends the rows
  in order.
\<close>

datatype fatal =
    FieldPanic panic
  | CellFatal string string field_error
  | TypeNotHandled string string

text \<open>
  Lines 212--242: \<open>getField\<close>, then the \<open>switch\<close> on \<open>FieldTypeName\<close>.  A string
  cell is trimmed; a bool or integer cell is parsed as it is.  \<open>"int"\<close> falls
  through to the \<open>int64\<close> case, whose message names \<open>int64\<close>.  \<open>CellFatal\<close>
  carries the type of the message, the header column and the parser's error.
\<close>

definition convert_cell :: "csv_field_entry \<Rightarrow> string \<Rightarrow> go_object \<Rightarrow> fatal + go_object" where
  "convert_cell entry value obj =
     (let fname = entry_field_name entry; t = entry_field_type_name entry;
          col = entry_header_column_name entry
      in case get_field fname obj of
           Inl p \<Rightarrow> Inl (FieldPanic p)
         | Inr _ \<Rightarrow>
             if t = ''string'' then Inr (set_field fname (GoString (trim_space value)) obj)
             else if t = ''bool'' then
               (case parse_bool_field fname value of
                  Inl err \<Rightarrow> Inl (CellFatal ''bool'' col err)
                | Inr b \<Rightarrow> Inr (set_field fname (GoBool b) obj))
             else if t = ''int32'' then
               (case parse_int32_field fname value of
                  Inl err \<Rightarrow> Inl (CellFatal ''int32'' col err)
                | Inr v \<Rightarrow> Inr (set_field fname (GoInt32 v) obj))
             else if t = ''int'' \<or> t = ''int64'' then
               (case parse_int64_field fname value of
                  Inl err \<Rightarrow> Inl (CellFatal ''int64'' col err)
                | Inr v \<Rightarrow> Inr (set_field fname (GoInt64 v) obj))
             else Inl (TypeNotHandled t col))"

text \<open>Lines 207--211: one cell of the row, by its column index.\<close>

definition process_cell :: "csv_fields \<Rightarrow> go_object \<Rightarrow> nat \<times> string \<Rightarrow> fatal + go_object" where
  "process_cell cf obj cell =
     (case cell of (column_index, column_value) \<Rightarrow>
        case column_entry cf column_index of
          None \<Rightarrow> Inr obj
        | Some entry \<Rightarrow>
            if entry_field_name entry = [] then Inr obj
            else convert_cell entry column_value obj)"

text \<open>Lines 205--243: a fresh struct, then the cells of the row in column order.\<close>

definition materialize_record :: "csv_fields \<Rightarrow> string list \<Rightarrow> fatal + go_object" where
  "materialize_record cf record =
     fold_res (process_cell cf) (indexed record) (new_struct (csv_type cf))"

text \<open>Lines 203--246: the rows in order, each appended to \<open>comuniList\<close>.\<close>

fun materialize_records ::
  "csv_fields \<Rightarrow> string list list \<Rightarrow> go_object list \<Rightarrow> fatal + go_object list" where
  "materialize_records cf [] comuni_list = Inr comuni_list"
| "materialize_records cf (record # records) comuni_list =
     bind_res (materialize_record cf record)
       (\<lambda>comune. materialize_records cf records (comuni_list @ [comune]))"

text \<open>
  The specification's trimming property as an invariant of a struct value:
  every string field holds a \<open>trimmed\<close> string.
\<close>

definition value_trimmed :: "go_value \<Rightarrow> bool" where
  "value_trimmed v = (case v of GoString s \<Rightarrow> trimmed s | _ \<Rightarrow> True)"

definition strings_trimmed :: "go_object \<Rightarrow> bool" where
  "strings_trimmed obj \<longleftrightarrow> list_all (value_trimmed \<circ> snd) obj"

text \<open>
  The layout of a record: the fields of the struct in order, each holding a value
  of its declared type (a field of an unsupported type keeps its zero value).
\<close>

fun value_typed :: "string \<Rightarrow> go_value \<Rightarrow> bool" where
  "value_typed t (GoString s) \<longleftrightarrow> t = ''string''"
| "value_typed t (GoBool b) \<longleftrightarrow> t = ''bool''"
| "value_typed t (GoInt32 w) \<longleftrightarrow> t = ''int32''"
| "value_typed t (GoInt64 w) \<longleftrightarrow> t = ''int'' \<or> t = ''int64''"
| "value_typed t (GoZero u) \<longleftrightarrow> u = t \<and> t \<notin> {''string'', ''bool'', ''int32'', ''int'', ''int64''}"

definition struct_typed :: "struct_type \<Rightarrow> go_object \<Rightarrow> bool" where
  "struct_typed st c \<longleftrightarrow> list_all2 (\<lambda>f (n, v). n = field_name f \<and> value_typed (field_type f) v) st c"

section \<open>Properties\<close>

lemmas materializer_eval = materialize_record_def process_cell_def convert_cell_def
  get_field_def set_field_def new_struct_def zero_value_def parse_bool_field_def parse_int32_field_def
  parse_int64_field_def

subsection \<open>The row loop\<close>

lemma materialize_records_Inr:
  "materialize_records cf rs acc = Inr cs \<longleftrightarrow>
     (\<exists>cs'. cs = acc @ cs' \<and> list_all2 (\<lambda>r c. materialize_record cf r = Inr c) rs cs')"
  by (induction rs arbitrary: acc) (auto simp: list_all2_Cons1)

lemma materialize_records_Inl:
  "materialize_records cf rs acc = Inl e \<longleftrightarrow>
     (\<exists>pre r post. rs = pre @ r # post \<and> list_all (\<lambda>r. \<exists>c. materialize_record cf r = Inr c) pre
        \<and> materialize_record cf r = Inl e)"
proof (induction rs arbitrary: acc)
  case (Cons r0 rs)
  show ?case
  proof (cases "materialize_record cf r0")
    case (Inl e0)
    then have "materialize_records cf (r0 # rs) acc = Inl e \<longleftrightarrow> e0 = e" by simp
    also have "\<dots> \<longleftrightarrow> (\<exists>pre r post. r0 # rs = pre @ r # post
                  \<and> list_all (\<lambda>r. \<exists>c. materialize_record cf r = Inr c) pre \<and> materialize_record cf r = Inl e)"
    proof
      assume "e0 = e"
      then show "\<exists>pre r post. r0 # rs = pre @ r # post
                  \<and> list_all (\<lambda>r. \<exists>c. materialize_record cf r = Inr c) pre \<and> materialize_record cf r = Inl e"
      proof (intro exI conjI)
        show "r0 # rs = [] @ r0 # rs" by simp
      qed (use Inl in simp_all)
    qed (use Inl in \<open>auto simp: Cons_eq_append_conv\<close>)
    finally show ?thesis .
  next
    case (Inr c)
    then have "materialize_records cf (r0 # rs) acc = Inl e \<longleftrightarrow>
                 materialize_records cf rs (acc @ [c]) = Inl e" by simp
    also have "\<dots> \<longleftrightarrow> (\<exists>pre r post. r0 # rs = pre @ r # post
                  \<and> list_all (\<lambda>r. \<exists>c. materialize_record cf r = Inr c) pre \<and> materialize_record cf r = Inl e)"
    proof
      assume "materialize_records cf rs (acc @ [c]) = Inl e"
      then obtain pre r post where "rs = pre @ r # post"
        and "list_all (\<lambda>r. \<exists>c. materialize_record cf r = Inr c) pre" and "materialize_record cf r = Inl e"
        using Cons.IH by blast
      then show "\<exists>pre r post. r0 # rs = pre @ r # post
                  \<and> list_all (\<lambda>r. \<exists>c. materialize_record cf r = Inr c) pre \<and> materialize_record cf r = Inl e"
        using Inr by (intro exI [of _ "r0 # pre"] exI [of _ r] exI [of _ post]) simp
    next
      assume "\<exists>pre r post. r0 # rs = pre @ r # post
                  \<and> list_all (\<lambda>r. \<exists>c. materialize_record cf r = Inr c) pre \<and> materialize_record cf r = Inl e"
      then obtain pre r post where split: "r0 # rs = pre @ r # post"
        and ok: "list_all (\<lambda>r. \<exists>c. materialize_record cf r = Inr c) pre" and err: "materialize_record cf r = Inl e"
        by blast
      then obtain pre' where "pre = r0 # pre'" and "rs = pre' @ r # post"
        using Inr by (cases pre) auto
      then show "materialize_records cf rs (acc @ [c]) = Inl e"
        using Cons.IH ok err by auto
    qed
    finally show ?thesis .
  qed
qed simp

subsection \<open>String fields are trimmed\<close>

lemma strings_trimmed_new_struct: "strings_trimmed (new_struct t)"
  by (auto simp: strings_trimmed_def new_struct_def list_all_iff value_trimmed_def zero_value_def)

lemma strings_trimmed_set_field:
  assumes "strings_trimmed obj" and "value_trimmed v"
  shows "strings_trimmed (set_field n v obj)"
  using assms by (auto simp: strings_trimmed_def set_field_def list_all_iff)

lemma convert_cell_trimmed:
  assumes "convert_cell e v obj = Inr obj'" and "strings_trimmed obj"
  shows "strings_trimmed obj'"
  using assms
  by (auto simp: convert_cell_def Let_def value_trimmed_def trim_space_trimmed
      split: sum.splits if_splits intro!: strings_trimmed_set_field)

lemma process_cell_trimmed:
  assumes "process_cell cf obj cell = Inr obj'" and "strings_trimmed obj"
  shows "strings_trimmed obj'"
  using assms by (auto simp: process_cell_def split: prod.splits option.splits if_splits
      intro: convert_cell_trimmed)

lemma materialize_record_strings_trimmed:
  assumes "materialize_record cf r = Inr c"
  shows "strings_trimmed c"
  using assms strings_trimmed_new_struct unfolding materialize_record_def
  by (rule fold_res_invariant) (rule process_cell_trimmed)

subsection \<open>The rows depend on the binding table only\<close>

text \<open>
  A successful conversion of a cell reads only the field's name and type, so a
  row converts to the same struct under any two tables with the same
  \<open>column_binding\<close>.
\<close>

lemma convert_cell_Inr_cong:
  assumes "entry_field_name e = entry_field_name e'" and "entry_field_type_name e = entry_field_type_name e'"
  shows "convert_cell e v obj = Inr obj' \<longleftrightarrow> convert_cell e' v obj = Inr obj'"
  using assms by (simp add: convert_cell_def Let_def split: sum.split)

lemma process_cell_Inr_binding:
  "process_cell cf obj (i, v) = Inr obj' \<longleftrightarrow>
     (case column_binding cf i of
        None \<Rightarrow> obj' = obj
      | Some (n, t) \<Rightarrow>
          convert_cell \<lparr>entry_field_name = n, entry_field_type_name = t, entry_tag_name = [],
            entry_header_column_name = [], entry_header_column_index = 0\<rparr> v obj = Inr obj')"
proof (cases "column_entry cf i")
  case None
  then show ?thesis by (auto simp: process_cell_def column_binding_def)
next
  case (Some e)
  show ?thesis
  proof (cases "entry_field_name e = []")
    case True
    then show ?thesis using Some by (auto simp: process_cell_def column_binding_def)
  next
    case False
    have "convert_cell e v obj = Inr obj' \<longleftrightarrow>
          convert_cell \<lparr>entry_field_name = entry_field_name e, entry_field_type_name = entry_field_type_name e,
            entry_tag_name = [], entry_header_column_name = [], entry_header_column_index = 0\<rparr> v obj = Inr obj'"
      by (rule convert_cell_Inr_cong) simp_all
    then show ?thesis using Some False by (simp add: process_cell_def column_binding_def)
  qed
qed

lemma process_cell_Inr_cong:
  assumes "column_binding cf = column_binding cf'"
  shows "process_cell cf obj cell = Inr obj' \<longleftrightarrow> process_cell cf' obj cell = Inr obj'"
proof -
  obtain i v where cell: "cell = (i, v)" by fastforce
  show ?thesis unfolding cell process_cell_Inr_binding assms ..
qed

lemma materialize_record_Inr_cong:
  assumes "column_binding cf = column_binding cf'" and "csv_type cf = csv_type cf'"
  shows "materialize_record cf r = Inr c \<longleftrightarrow> materialize_record cf' r = Inr c"
  unfolding materialize_record_def assms(2)
  by (rule fold_res_Inr_cong) (rule process_cell_Inr_cong [OF assms(1)])

lemma materialize_records_Inr_cong:
  assumes "column_binding cf = column_binding cf'" and "csv_type cf = csv_type cf'"
  shows "materialize_records cf rs acc = Inr cs \<longleftrightarrow> materialize_records cf' rs acc = Inr cs"
proof -
  have "list_all2 (\<lambda>r c. materialize_record cf r = Inr c) rs cs' \<longleftrightarrow>
        list_all2 (\<lambda>r c. materialize_record cf' r = Inr c) rs cs'" for cs'
    using materialize_record_Inr_cong [OF assms] by (simp add: list_all2_conv_all_nth)
  then show ?thesis by (simp add: materialize_records_Inr)
qed

text \<open>
  With tags that match at most one column each, the records do not depend on
  the iteration orders of \<open>parseStructTags\<close>: they are the records of the
  canonical (ascending) orders.
\<close>

lemma materialize_canonical:
  assumes "iteration_order h it0" and "\<forall>k<length t. iteration_order h (its k)"
    and "\<forall>f\<in>set t. field_name f \<noteq> []" and "unambiguous t h"
  shows "materialize_records (parse_struct_tags t h it0 its) rs [] = Inr cs \<longleftrightarrow>
         materialize_records (parse_struct_tags t h (header_entries h) (\<lambda>_. header_entries h)) rs [] = Inr cs"
proof (rule materialize_records_Inr_cong)
  have can: "iteration_order h (header_entries h)" by (simp add: iteration_order_def)
  show "column_binding (parse_struct_tags t h it0 its) =
        column_binding (parse_struct_tags t h (header_entries h) (\<lambda>_. header_entries h))"
    using code_binding_canonical [OF assms(1,2,3,4)] code_binding_canonical [OF can _ assms(3,4)] can
    by simp
qed simp

text \<open>The specification's scenario under the canonical iteration orders.\<close>

lemma scenario_canonical_rows:
  "materialize_records
     (parse_struct_tags [sf ''F1'' ''string'' ''A'', sf ''F2'' ''string'' ''B...''] [''A'', ''B;extra'']
        (header_entries [''A'', ''B;extra'']) (\<lambda>_. header_entries [''A'', ''B;extra'']))
     [[''1'', ''2'']] [] = Inr [[(''F1'', GoString ''1''), (''F2'', GoString ''2'')]]"
  by (simp add: binder_eval materializer_eval go_eval)

lemma scenario_tags:
  "\<forall>f\<in>set [sf ''F1'' ''string'' ''A'', sf ''F2'' ''string'' ''B...'']. field_name f \<noteq> []"
  "unambiguous [sf ''F1'' ''string'' ''A'', sf ''F2'' ''string'' ''B...''] [''A'', ''B;extra'']"
  by (simp_all add: binder_eval go_eval)

subsection \<open>Records are typed\<close>

text \<open>
  The binding table names only fields of the struct with their own types, and a
  cell is stored with a value of the type it was bound to; so every step of the
  row loop keeps the record's layout.
\<close>

lemma ran_bind_table:
  "ran (bind_table ch k fs tbl) \<subseteq> ran tbl \<union> (\<lambda>f. (field_name f, field_type f)) ` set fs"
proof (induction fs arbitrary: k tbl)
  case Nil
  then show ?case by simp
next
  case (Cons f fs)
  have "ran (case ch k f of None \<Rightarrow> tbl | Some i \<Rightarrow> tbl(i \<mapsto> (field_name f, field_type f)))
      \<subseteq> ran tbl \<union> {(field_name f, field_type f)}"
    using ran_upd_subset [of tbl] by (auto split: option.splits)
  then show ?case using Cons [of "Suc k"] by auto
qed

lemma value_typed_zero: "value_typed t (zero_value t)"
  by (simp add: zero_value_def)

lemma struct_typed_new_struct: "struct_typed st (new_struct st)"
  by (induction st) (auto simp: struct_typed_def new_struct_def value_typed_zero)

lemma list_all2_names:
  "list_all2 (\<lambda>f (n, v). n = field_name f \<and> P f v) st obj \<Longrightarrow> map fst obj = map field_name st"
  by (induction rule: list_all2_induct) auto

lemma struct_typed_set_field:
  assumes "struct_typed st obj" and "distinct (field_names st)" and "f \<in> set st"
    and "value_typed (field_type f) v"
  shows "struct_typed st (set_field (field_name f) v obj)"
proof -
  have "list_all2 (\<lambda>g (n, x). n = field_name g \<and> value_typed (field_type g) x) st
      (map (\<lambda>(n, x). if n = field_name f then (n, v) else (n, x)) obj)"
    using assms(1-3) unfolding struct_typed_def field_names_def
  proof (induction rule: list_all2_induct)
    case Nil
    then show ?case by simp
  next
    case (Cons g gs nx obj)
    show ?case
    proof (cases "field_name g = field_name f")
      case True
      then have "g = f" using Cons.prems by (auto simp: image_iff)
      have "map fst obj = map field_name gs" using Cons(2) by (rule list_all2_names)
      then have "field_name f \<notin> fst ` set obj" using Cons.prems \<open>g = f\<close> by (metis distinct.simps(2) list.set_map list.simps(9))
      then have "map (\<lambda>(n, x). if n = field_name f then (n, v) else (n, x)) obj = obj"
        by (intro map_idI) force
      then show ?thesis using Cons assms(4) True by (auto split: prod.splits)
    next
      case False
      then have "f \<in> set gs" using Cons.prems by auto
      then show ?thesis using Cons False by (auto split: prod.splits)
    qed
  qed
  then show ?thesis by (simp add: struct_typed_def set_field_def)
qed

lemma convert_cell_typed:
  assumes "convert_cell e val obj = Inr obj'" and "struct_typed st obj" and "distinct (field_names st)"
    and "f \<in> set st" and "entry_field_name e = field_name f" and "entry_field_type_name e = field_type f"
  shows "struct_typed st obj'"
  using assms
  by (auto simp: convert_cell_def Let_def split: sum.splits if_splits
      intro!: struct_typed_set_field [OF assms(2-4)])

lemma process_cell_typed:
  assumes "process_cell cf obj (i, val) = Inr obj'" and "struct_typed st obj" and "distinct (field_names st)"
    and "ran (column_binding cf) \<subseteq> (\<lambda>f. (field_name f, field_type f)) ` set st"
  shows "struct_typed st obj'"
proof (cases "column_binding cf i")
  case None
  then show ?thesis using assms(1,2) process_cell_Inr_binding [of cf obj i val obj'] by simp
next
  case (Some nt)
  obtain n t where nt: "nt = (n, t)" by fastforce
  then obtain f where f: "f \<in> set st" "n = field_name f" "t = field_type f"
    using assms(4) Some ranI [of "column_binding cf" i nt] by blast
  show ?thesis
    using assms(1) process_cell_Inr_binding [of cf obj i val obj'] Some nt f
    by (auto intro: convert_cell_typed [OF _ assms(2,3) f(1)])
qed

lemma materialize_record_typed:
  assumes "iteration_order h it0" and "\<forall>k<length t. iteration_order h (its k)"
    and "\<forall>f\<in>set t. field_name f \<noteq> []" and "distinct (field_names t)"
    and "materialize_record (parse_struct_tags t h it0 its) r = Inr c"
  shows "struct_typed t c"
proof (rule fold_res_invariant [where P = "struct_typed t"])
  let ?cf = "parse_struct_tags t h it0 its"
  have bind: "ran (column_binding ?cf) \<subseteq> (\<lambda>f. (field_name f, field_type f)) ` set t"
    using parse_struct_tags_binding [OF assms(1-3)] ran_bind_table [of "chooser_of its" 0 t Map.empty]
    by simp
  show "fold_res (process_cell ?cf) (indexed r) (new_struct t) = Inr c"
    using assms(5) by (simp add: materialize_record_def)
  show "struct_typed t (new_struct t)" by (rule struct_typed_new_struct)
  fix s x u
  assume "struct_typed t s" and "process_cell ?cf s x = Inr u"
  then show "struct_typed t u" using process_cell_typed [OF _ _ assms(4) bind] by (cases x) blast
qed

subsection \<open>Errors of a cell\<close>

lemma convert_cell_TypeNotHandled:
  "convert_cell entry v obj = Inl (TypeNotHandled t col) \<Longrightarrow>
     t = entry_field_type_name entry \<and> col = entry_header_column_name entry \<and>
     t \<notin> {''string'', ''bool'', ''int32'', ''int'', ''int64''}"
  by (auto simp: convert_cell_def Let_def split: sum.splits if_splits)

lemma materialize_record_Inl:
  assumes "materialize_record cf r = Inl e"
  shows "\<exists>i<length r. \<exists>obj. process_cell cf obj (i, r ! i) = Inl e"
proof -
  obtain i v obj where iv: "(i, v) \<in> set (indexed r)" and "process_cell cf obj (i, v) = Inl e"
    using fold_res_Inl [OF assms [unfolded materialize_record_def]] by fastforce
  moreover have "i < length r \<and> r ! i = v" using iv by (simp add: set_enumerate_iff)
  ultimately show ?thesis by blast
qed

subsection \<open>Main properties of the materializer\<close>

text \<open>
  C7: row-count and order preservation.  The loop succeeds exactly when every
  row converts, and then it returns one struct per row, the \<open>i\<close>-th struct
  being the conversion of the \<open>i\<close>-th row.
\<close>

theorem materialize_rows:
  "materialize_records cf rs [] = Inr cs \<longleftrightarrow> list_all2 (\<lambda>r c. materialize_record cf r = Inr c) rs cs"
  using materialize_records_Inr [of cf rs "[]" cs] by simp

text \<open>
  C8: fail-fast.  The loop fails exactly when some row fails after rows that all
  convert, and then it returns the error of that first failing row and no
  structs at all.
\<close>

theorem materialize_fail_fast:
  "materialize_records cf rs [] = Inl e \<longleftrightarrow>
     (\<exists>pre r post. rs = pre @ r # post \<and> list_all (\<lambda>r. \<exists>c. materialize_record cf r = Inr c) pre
        \<and> materialize_record cf r = Inl e)"
  by (rule materialize_records_Inl)

text \<open>
  C9: trimming.  In every struct the loop returns, every string field holds a
  string with no white space at either end, whatever the padding of the cells.
\<close>

theorem materialized_strings_trimmed:
  assumes "materialize_records cf rs [] = Inr cs" and "c \<in> set cs" and "(n, GoString s) \<in> set c"
  shows "trimmed s"
proof -
  have all: "list_all2 (\<lambda>r c. materialize_record cf r = Inr c) rs cs"
    using assms(1) by (simp add: materialize_records_Inr)
  obtain i where "i < length cs" and "c = cs ! i" using assms(2) by (auto simp: in_set_conv_nth)
  with all have "materialize_record cf (rs ! i) = Inr c" by (simp add: list_all2_conv_all_nth)
  then have "strings_trimmed c" by (rule materialize_record_strings_trimmed)
  then show ?thesis using assms(3) by (auto simp: strings_trimmed_def list_all_iff value_trimmed_def)
qed

text \<open>
  C10: the scenario of the specification.  With header \<open>["A", "B;extra"]\<close> and the
  fields \<open>F1\<close> (tag \<open>"A"\<close>) and \<open>F2\<close> (tag \<open>"B..."\<close>), both strings, the body row
  \<open>["1", "2"]\<close> becomes the record \<open>{F1: "1", F2: "2"}\<close>, whatever orders the
  binder's map iterations take.
\<close>

theorem spec_scenario_record:
  assumes "iteration_order [''A'', ''B;extra''] it0"
    and "\<forall>k<2. iteration_order [''A'', ''B;extra''] (its k)"
  shows "materialize_records
           (parse_struct_tags [sf ''F1'' ''string'' ''A'', sf ''F2'' ''string'' ''B...''] [''A'', ''B;extra''] it0 its)
           [[''1'', ''2'']] [] = Inr [[(''F1'', GoString ''1''), (''F2'', GoString ''2'')]]"
proof -
  have "\<forall>k<length [sf ''F1'' ''string'' ''A'', sf ''F2'' ''string'' ''B...''].
          iteration_order [''A'', ''B;extra''] (its k)"
    using assms(2) by (simp add: numeral_2_eq_2)
  from materialize_canonical [OF assms(1) this scenario_tags] show ?thesis
    by (rule iffD2) (rule scenario_canonical_rows)
qed

text \<open>
  C11: a field of an unsupported type is rejected lazily.  \<open>parseStructTags\<close>
  binds a column to a field whatever the field's type; the conversion fails
  with \<open>type not handled\<close> only when some row has a cell in a column bound to
  a named field whose type is none of the handled ones, and the error names
  that type and that column.
\<close>

theorem unsupported_type_lazy:
  assumes "materialize_records cf rs [] = Inl (TypeNotHandled t col)"
  shows "t \<notin> {''string'', ''bool'', ''int32'', ''int'', ''int64''} \<and>
    (\<exists>r\<in>set rs. \<exists>i<length r. \<exists>e. column_entry cf i = Some e \<and> entry_field_name e \<noteq> [] \<and>
        entry_field_type_name e = t \<and> entry_header_column_name e = col)"
proof -
  obtain pre r post where "rs = pre @ r # post" and mr: "materialize_record cf r = Inl (TypeNotHandled t col)"
    using assms by (auto simp: materialize_records_Inl)
  then have r: "r \<in> set rs" by simp
  obtain i obj where i: "i < length r" and pc: "process_cell cf obj (i, r ! i) = Inl (TypeNotHandled t col)"
    using materialize_record_Inl [OF mr] by blast
  then obtain e where ce: "column_entry cf i = Some e" and ne: "entry_field_name e \<noteq> []"
    and cc: "convert_cell e (r ! i) obj = Inl (TypeNotHandled t col)"
    by (auto simp: process_cell_def split: option.splits if_splits)
  show ?thesis using r i ce ne convert_cell_TypeNotHandled [OF cc] by blast
qed

text \<open>
  C12: only string cells are trimmed.  For a cell that starts with ASCII white
  space, a string field stores the same value as for the cell without it,
  while a \<open>bool\<close>, \<open>int32\<close>, \<open>int\<close> or \<open>int64\<close> field ends the conversion with the
  syntax error of \<open>strconv.ParseBool\<close> or \<open>strconv.ParseInt\<close> on the padded
  cell, whatever follows the space; the specification trims every cell before
  coercion.
\<close>

theorem numeric_cells_untrimmed:
  assumes "get_field (entry_field_name e) obj = Inr x"
    and "c \<in> {CHR '' '', CHR 0x09, CHR 0x0A, CHR 0x0B, CHR 0x0C, CHR 0x0D}"
  shows "(entry_field_type_name e = ''string'' \<longrightarrow> convert_cell e (c # v) obj = convert_cell e v obj) \<and>
    (entry_field_type_name e = ''bool'' \<longrightarrow> convert_cell e (c # v) obj =
       Inl (CellFatal ''bool'' (entry_header_column_name e)
         (BoolFieldError (entry_field_name e) (c # v) (syntax_error ''ParseBool'' (c # v))))) \<and>
    (entry_field_type_name e = ''int32'' \<longrightarrow> convert_cell e (c # v) obj =
       Inl (CellFatal ''int32'' (entry_header_column_name e)
         (IntFieldError (entry_field_name e) (c # v) (syntax_error ''ParseInt'' (c # v))))) \<and>
    (entry_field_type_name e \<in> {''int'', ''int64''} \<longrightarrow> convert_cell e (c # v) obj =
       Inl (CellFatal ''int64'' (entry_header_column_name e)
         (IntFieldError (entry_field_name e) (c # v) (syntax_error ''ParseInt'' (c # v)))))"
proof -
  have ts: "trim_space (c # v) = trim_space v"
    by (simp only: trim_space_def trim_left_space_ascii_space [OF assms(2)])
  have pb: "parse_bool (c # v) = Inl (syntax_error ''ParseBool'' (c # v))"
    using assms(2) by (auto simp: parse_bool_def)
  have pi: "parse_int (c # v) n = (0, Some (syntax_error ''ParseInt'' (c # v)))" if "n \<in> {32, 64}" for n
    using assms(2) that by (auto simp: parse_int_def parse_uint_def is_digit_def syntax_error_def)
  show ?thesis
    using assms(1) ts pb pi
    by (auto simp: convert_cell_def Let_def parse_bool_field_def parse_int32_field_def parse_int64_field_def)
qed

text \<open>
  C22: every record the row loop returns is a well-typed struct: its fields are
  the struct's fields in order, and each holds a value of the field's declared
  type (strings in string fields, \<open>int32\<close> words in \<open>int32\<close> fields, and so on),
  whatever the header and the iteration orders, for a struct whose field names
  are non-empty and distinct.
\<close>

theorem materialized_records_typed:
  assumes "iteration_order h it0" and "\<forall>k<length t. iteration_order h (its k)"
    and "\<forall>f\<in>set t. field_name f \<noteq> []" and "distinct (field_names t)"
    and "materialize_records (parse_struct_tags t h it0 its) rs [] = Inr cs"
  shows "list_all (struct_typed t) cs"
proof -
  have "list_all2 (\<lambda>r c. materialize_record (parse_struct_tags t h it0 its) r = Inr c) rs cs"
    using assms(5) by (simp add: materialize_records_Inr)
  then show ?thesis
    by (induction rule: list_all2_induct) (auto intro: materialize_record_typed [OF assms(1-4)])
qed

subsection \<open>Witnesses\<close>

theorem materialized_strings_trimmed_witness:
  "materialize_records (parse_struct_tags [sf ''F1'' ''string'' ''A''] [''A''] [(''A'', 0)] (\<lambda>_. [(''A'', 0)]))
     [['' x '']] [] = Inr [[(''F1'', GoString ''x'')]] \<and> trimmed ''x''"
proof -
  have run: "materialize_records (parse_struct_tags [sf ''F1'' ''string'' ''A''] [''A''] [(''A'', 0)] (\<lambda>_. [(''A'', 0)]))
     [['' x '']] [] = Inr [[(''F1'', GoString ''x'')]]"
    by (simp add: binder_eval materializer_eval go_eval)
  show ?thesis
    using run materialized_strings_trimmed [OF run, of "[(''F1'', GoString ''x'')]" "''F1''" "''x''"] by simp
qed
theorem spec_scenario_record_witness:
  "materialize_records
     (parse_struct_tags [sf ''F1'' ''string'' ''A'', sf ''F2'' ''string'' ''B...''] [''A'', ''B;extra'']
        [(''B;extra'', 1), (''A'', 0)] (\<lambda>_. [(''A'', 0), (''B;extra'', 1)]))
     [[''1'', ''2'']] [] = Inr [[(''F1'', GoString ''1''), (''F2'', GoString ''2'')]]"
  using spec_scenario_record [of "[(''B;extra'', 1), (''A'', 0)]" "\<lambda>_. [(''A'', 0), (''B;extra'', 1)]"]
  by (simp add: iteration_order_def header_entries_def)

theorem materialized_records_typed_witness:
  "materialize_records (parse_struct_tags [sf ''N'' ''int32'' ''N'', sf ''S'' ''string'' ''S''] [''N'', ''S'']
      [(''N'', 0), (''S'', 1)] (\<lambda>_. [(''N'', 0), (''S'', 1)])) [[''12'', '' 12 '']] []
     = Inr [[(''N'', GoInt32 12), (''S'', GoString ''12'')]] \<and>
   list_all (struct_typed [sf ''N'' ''int32'' ''N'', sf ''S'' ''string'' ''S''])
     [[(''N'', GoInt32 12), (''S'', GoString ''12'')]]"
proof -
  have run: "materialize_records (parse_struct_tags [sf ''N'' ''int32'' ''N'', sf ''S'' ''string'' ''S''] [''N'', ''S'']
      [(''N'', 0), (''S'', 1)] (\<lambda>_. [(''N'', 0), (''S'', 1)])) [[''12'', '' 12 '']] []
     = Inr [[(''N'', GoInt32 12), (''S'', GoString ''12'')]]"
    by (simp add: binder_eval materializer_eval go_eval parse_int_def parse_uint_def is_digit_def cutoff10_def
        word_le_nat_alt word_less_nat_alt)
  have "iteration_order [''N'', ''S''] [(''N'', 0), (''S'', 1)]"
    by (simp add: iteration_order_def header_entries_def)
  then show ?thesis
    using run materialized_records_typed [OF _ _ _ _ run] by (simp add: sf_def field_names_def)
qed

theorem unsupported_type_lazy_witness:
  "materialize_records (parse_struct_tags [sf ''F2'' ''float64'' ''Z''] [''Z''] [(''Z'', 0)] (\<lambda>_. [(''Z'', 0)]))
      [] [] = Inr [] \<and>
   materialize_records (parse_struct_tags [sf ''F2'' ''float64'' ''Z''] [''Z''] [(''Z'', 0)] (\<lambda>_. [(''Z'', 0)]))
      [[''1.5'']] [] = Inl (TypeNotHandled ''float64'' ''Z'') \<and>
   (\<exists>r\<in>set [[''1.5'']]. \<exists>i<length r. \<exists>e.
      column_entry (parse_struct_tags [sf ''F2'' ''float64'' ''Z''] [''Z''] [(''Z'', 0)] (\<lambda>_. [(''Z'', 0)])) i = Some e \<and>
      entry_field_name e \<noteq> [] \<and> entry_field_type_name e = ''float64'' \<and> entry_header_column_name e = ''Z'')"
proof -
  let ?cf = "parse_struct_tags [sf ''F2'' ''float64'' ''Z''] [''Z''] [(''Z'', 0)] (\<lambda>_. [(''Z'', 0)])"
  have run: "materialize_records ?cf [[''1.5'']] [] = Inl (TypeNotHandled ''float64'' ''Z'')"
    by (simp add: binder_eval materializer_eval go_eval)
  show ?thesis using run unsupported_type_lazy [OF run] by simp
qed

theorem numeric_cells_untrimmed_witness:
  "convert_cell \<lparr>entry_field_name = ''N'', entry_field_type_name = ''int32'', entry_tag_name = ''N'',
       entry_header_column_name = ''N'', entry_header_column_index = 0\<rparr> '' 12'' [(''N'', GoInt32 0)] =
     Inl (CellFatal ''int32'' ''N'' (IntFieldError ''N'' '' 12'' (syntax_error ''ParseInt'' '' 12''))) \<and>
   convert_cell \<lparr>entry_field_name = ''N'', entry_field_type_name = ''int32'', entry_tag_name = ''N'',
       entry_header_column_name = ''N'', entry_header_column_index = 0\<rparr> ''12'' [(''N'', GoInt32 0)] =
     Inr [(''N'', GoInt32 12)] \<and>
   convert_cell \<lparr>entry_field_name = ''N'', entry_field_type_name = ''string'', entry_tag_name = ''N'',
       entry_header_column_name = ''N'', entry_header_column_index = 0\<rparr> '' 12'' [(''N'', GoString [])] =
     convert_cell \<lparr>entry_field_name = ''N'', entry_field_type_name = ''string'', entry_tag_name = ''N'',
       entry_header_column_name = ''N'', entry_header_column_index = 0\<rparr> ''12'' [(''N'', GoString [])]"
proof -
  have g1: "get_field ''N'' [(''N'', GoInt32 0)] = Inr (GoInt32 0)" by (simp add: get_field_def)
  have g2: "get_field ''N'' [(''N'', GoString [])] = Inr (GoString [])" by (simp add: get_field_def)
  have sp: "CHR '' '' \<in> {CHR '' '', CHR 0x09, CHR 0x0A, CHR 0x0B, CHR 0x0C, CHR 0x0D}" by simp
  have ok: "convert_cell \<lparr>entry_field_name = ''N'', entry_field_type_name = ''int32'', entry_tag_name = ''N'',
       entry_header_column_name = ''N'', entry_header_column_index = 0\<rparr> ''12'' [(''N'', GoInt32 0)] =
     Inr [(''N'', GoInt32 12)]"
    by (simp add: materializer_eval go_eval parse_int_def parse_uint_def is_digit_def cutoff10_def
        word_le_nat_alt word_less_nat_alt)
  show ?thesis
    using numeric_cells_untrimmed [OF _ sp, of "\<lparr>entry_field_name = ''N'', entry_field_type_name = ''int32'',
        entry_tag_name = ''N'', entry_header_column_name = ''N'', entry_header_column_index = 0\<rparr>"
        "[(''N'', GoInt32 0)]" _ "''12''"]
      numeric_cells_untrimmed [OF _ sp, of "\<lparr>entry_field_name = ''N'', entry_field_type_name = ''string'',
        entry_tag_name = ''N'', entry_header_column_name = ''N'', entry_header_column_index = 0\<rparr>"
        "[(''N'', GoString [])]" _ "''12''"]
      g1 g2 ok by simp
qed

end
