(* ===== verification/Pipeline.thy ===== *)
theory Pipeline
  imports Materializer
begin

text \<open>
  The conversion pipeline of \<open>doConvert\<close> (\<open>src/cmd/go-comuni/main.go\<close>, lines
  172--265) around the binder and the materializer: the encoding detection of
  \<open>DetermineEncodingFromReader\<close> (lines 138--146), whose \<open>bufio.Reader.Peek(1024)\<close>
  fails on an input shorter than 1024 bytes and makes \<open>doConvert\<close> panic; the
  decoding of the input with the detected encoding; the \<open>encoding/csv\<close> reader
  with \<open>Comma = ';'\<close> and \<open>Comment = '#'\<close>; and \<open>records[0]\<close>, which panics on an
  input with no record.  \<open>charset.DetermineEncoding\<close> and the decoders of
  \<open>golang.org/x/text\<close> are libraries: the detector is a parameter of the model.
  \<open>encoding/csv\<close> is a library too, modelled from its documented behaviour and
  its implementation as an automaton over the input's bytes.  Reading the
  source, marshalling to JSON and writing the file are I/O and are not modelled:
  the model's result is the \<open>comuniList\<close> that is marshalled.
\<close>

section \<open>Encoding detection\<close>

datatype io_error = ErrEOF | ErrBufferFull

text \<open>\<open>bufio.NewReader\<close>'s buffer size.\<close>

definition default_buf_size :: nat where
  "default_buf_size = 4096"

text \<open>
  \<open>bufio.Reader.Peek(n)\<close> on a reader over the whole input: the first \<open>n\<close> bytes,
  or all of them with \<open>io.EOF\<close> when there are fewer.
\<close>

definition peek :: "nat \<Rightarrow> bytes \<Rightarrow> bytes \<times> io_error option" where
  "peek n src =
     (if default_buf_size < n then (take default_buf_size src, Some ErrBufferFull)
      else if length src < n then (src, Some ErrEOF)
      else (take n src, None))"

type_synonym decoder = "bytes \<Rightarrow> bytes"

text \<open>\<open>charset.DetermineEncoding(b, "")\<close>: an encoding (its decoder), its name, certainty.\<close>

type_synonym detector = "bytes \<Rightarrow> decoder \<times> string \<times> bool"

text \<open>
  \<open>DetermineEncodingFromReader\<close>: the error of \<open>Peek\<close> (the other results are then
  zero values, which the caller never reads) or the detected encoding.
\<close>

definition determine_encoding_from_reader ::
  "detector \<Rightarrow> bytes \<Rightarrow> io_error + decoder \<times> string \<times> bool" where
  "determine_encoding_from_reader detect r =
     (case peek 1024 r of
        (_, Some err) \<Rightarrow> Inl err
      | (b, None) \<Rightarrow> Inr (detect b))"

section \<open>The CSV reader\<close>

datatype csv_error = ErrBareQuote | ErrQuote | ErrFieldCount

text \<open>
  \<open>readLine\<close> turns every \<open>\r\n\<close> into \<open>\n\<close> and drops a \<open>\r\<close> that ends the input.
\<close>

fun normalize_newlines :: "bytes \<Rightarrow> bytes" where
  "normalize_newlines [] = []"
| "normalize_newlines [c] = (if c = CHR 0x0D then [] else [c])"
| "normalize_newlines (c # d # cs) =
     (if c = CHR 0x0D \<and> d = CHR 0x0A then CHR 0x0A # normalize_newlines cs
      else c # normalize_newlines (d # cs))"

text \<open>
  The states of \<open>readRecord\<close>: at the start of a line, in a comment line, at the
  start of a field, in an unquoted field, in a quoted field, and just after a
  quote inside a quoted field.
\<close>

datatype csv_state = LineStart | CommentLine | FieldStart | Unquoted | Quoted | QuoteSeen

text \<open>
  The end of a record: the first record fixes \<open>FieldsPerRecord\<close> (0 = not yet
  set), every later one must have as many fields.
\<close>

definition emit_record ::
  "nat \<Rightarrow> string list \<Rightarrow> string list list \<Rightarrow> csv_error + nat \<times> string list list" where
  "emit_record n r acc =
     (if 0 < n \<and> length r \<noteq> n then Inl ErrFieldCount
      else Inr (if n = 0 then length r else n, acc @ [r]))"

text \<open>
  \<open>csv.Reader.ReadAll\<close> with \<open>Comma = ';'\<close>, \<open>Comment = '#'\<close>, \<open>LazyQuotes\<close> and
  \<open>TrimLeadingSpace\<close> false: the state, \<open>FieldsPerRecord\<close>, the field being read,
  the fields of the record, the records, and the rest of the input.
\<close>

function csv_scan ::
  "csv_state \<Rightarrow> nat \<Rightarrow> bytes \<Rightarrow> string list \<Rightarrow> string list list \<Rightarrow> bytes
     \<Rightarrow> csv_error + string list list" where
  "csv_scan LineStart n f rec acc [] = Inr acc"
| "csv_scan CommentLine n f rec acc [] = Inr acc"
| "csv_scan FieldStart n f rec acc [] = map_sum id snd (emit_record n (rec @ [f]) acc)"
| "csv_scan Unquoted n f rec acc [] = map_sum id snd (emit_record n (rec @ [f]) acc)"
| "csv_scan Quoted n f rec acc [] = Inl ErrQuote"
| "csv_scan QuoteSeen n f rec acc [] = map_sum id snd (emit_record n (rec @ [f]) acc)"
| "csv_scan LineStart n f rec acc (c # cs) =
     (if c = CHR 0x0A then csv_scan LineStart n [] [] acc cs
      else if c = CHR ''#'' then csv_scan CommentLine n [] [] acc cs
      else csv_scan FieldStart n [] [] acc (c # cs))"
| "csv_scan CommentLine n f rec acc (c # cs) =
     (if c = CHR 0x0A then csv_scan LineStart n [] [] acc cs
      else csv_scan CommentLine n [] [] acc cs)"
| "csv_scan FieldStart n f rec acc (c # cs) =
     (if c = CHR 0x22 then csv_scan Quoted n [] rec acc cs
      else if c = CHR '';'' then csv_scan FieldStart n [] (rec @ [f]) acc cs
      else if c = CHR 0x0A then
        (case emit_record n (rec @ [f]) acc of
           Inl e \<Rightarrow> Inl e
         | Inr (n', acc') \<Rightarrow> csv_scan LineStart n' [] [] acc' cs)
      else csv_scan Unquoted n (f @ [c]) rec acc cs)"
| "csv_scan Unquoted n f rec acc (c # cs) =
     (if c = CHR 0x22 then Inl ErrBareQuote
      else if c = CHR '';'' then csv_scan FieldStart n [] (rec @ [f]) acc cs
      else if c = CHR 0x0A then
        (case emit_record n (rec @ [f]) acc of
           Inl e \<Rightarrow> Inl e
         | Inr (n', acc') \<Rightarrow> csv_scan LineStart n' [] [] acc' cs)
      else csv_scan Unquoted n (f @ [c]) rec acc cs)"
| "csv_scan Quoted n f rec acc (c # cs) =
     (if c = CHR 0x22 then csv_scan QuoteSeen n f rec acc cs
      else csv_scan Quoted n (f @ [c]) rec acc cs)"
| "csv_scan QuoteSeen n f rec acc (c # cs) =
     (if c = CHR 0x22 then csv_scan Quoted n (f @ [c]) rec acc cs
      else if c = CHR '';'' then csv_scan FieldStart n [] (rec @ [f]) acc cs
      else if c = CHR 0x0A then
        (case emit_record n (rec @ [f]) acc of
           Inl e \<Rightarrow> Inl e
         | Inr (n', acc') \<Rightarrow> csv_scan LineStart n' [] [] acc' cs)
      else Inl ErrQuote)"
  by pat_completeness auto
termination
  by (relation "measures [\<lambda>(st, n, f, rec, acc, s). length s,
                          \<lambda>(st, n, f, rec, acc, s). if st = LineStart then 1 else 0]") auto

definition csv_read_all :: "bytes \<Rightarrow> csv_error + string list list" where
  "csv_read_all s = csv_scan LineStart 0 [] [] [] (normalize_newlines s)"

section \<open>doConvert\<close>

datatype convert_error =
    EncodingPanic io_error
  | CsvFatal csv_error
  | IndexPanic
  | RowFatal fatal

text \<open>
  Lines 173--246 of \<open>doConvert\<close> for the input \<open>all_data\<close>, the struct \<open>t\<close>, and
  the iteration orders of \<open>parseStructTags\<close>'s map loops.
\<close>

definition do_convert ::
  "detector \<Rightarrow> struct_type \<Rightarrow> map_order \<Rightarrow> (nat \<Rightarrow> map_order) \<Rightarrow> bytes
     \<Rightarrow> convert_error + go_object list" where
  "do_convert detect t it0 its all_data =
     (case determine_encoding_from_reader detect all_data of
        Inl err \<Rightarrow> Inl (EncodingPanic err)
      | Inr (dec, _, _) \<Rightarrow>
          (case csv_read_all (dec all_data) of
             Inl err \<Rightarrow> Inl (CsvFatal err)
           | Inr [] \<Rightarrow> Inl IndexPanic
           | Inr (header # records) \<Rightarrow>
               map_sum RowFatal id (materialize_records (parse_struct_tags t header it0 its) records [])))"

section \<open>A reference writer\<close>

text \<open>
  The inverse the reader is checked against: every field quoted, a quote
  doubled, fields separated by \<open>;\<close> and records ended by \<open>\n\<close>.
\<close>

definition quote_field :: "string \<Rightarrow> bytes" where
  "quote_field f = CHR 0x22 # concat (map (\<lambda>c. if c = CHR 0x22 then [c, c] else [c]) f) @ [CHR 0x22]"

fun write_fields :: "string list \<Rightarrow> bytes" where
  "write_fields [] = []"
| "write_fields [f] = quote_field f"
| "write_fields (f # g # fs) = quote_field f @ CHR '';'' # write_fields (g # fs)"

definition csv_write :: "string list list \<Rightarrow> bytes" where
  "csv_write rs = concat (map (\<lambda>r. write_fields r @ [CHR 0x0A]) rs)"

text \<open>
  The reader's invariant on the records read so far: all have \<open>n\<close> fields,
  and \<open>n\<close> is set once there is one.
\<close>

definition rectangular :: "nat \<Rightarrow> string list list \<Rightarrow> bool" where
  "rectangular n acc \<longleftrightarrow> list_all (\<lambda>r. length r = n) acc \<and> (0 < n \<or> acc = [])"

section \<open>Properties\<close>

subsection \<open>The reader\<close>

lemma normalize_newlines_no_cr: "CHR 0x0D \<notin> set s \<Longrightarrow> normalize_newlines s = s"
  by (induction s rule: normalize_newlines.induct) auto

lemma csv_scan_quoted:
  "csv_scan Quoted n f rec acc (concat (map (\<lambda>c. if c = CHR 0x22 then [c, c] else [c]) x) @ CHR 0x22 # rest)
     = csv_scan QuoteSeen n (f @ x) rec acc rest"
  by (induction x arbitrary: f) auto

lemma csv_scan_fields:
  assumes "r \<noteq> []"
  shows "csv_scan FieldStart n [] rec acc (write_fields r @ CHR 0x0A # rest) =
     (case emit_record n (rec @ r) acc of
        Inl e \<Rightarrow> Inl e
      | Inr (n', acc') \<Rightarrow> csv_scan LineStart n' [] [] acc' rest)"
  using assms
proof (induction r arbitrary: rec rule: write_fields.induct)
  case (2 f)
  then show ?case by (simp add: quote_field_def csv_scan_quoted)
next
  case (3 f g fs)
  then show ?case by (simp add: quote_field_def csv_scan_quoted)
qed simp

lemma csv_scan_write:
  assumes "list_all (\<lambda>r. r \<noteq> [] \<and> length r = m) rs" and "n = 0 \<or> n = m"
  shows "csv_scan LineStart n [] [] acc (csv_write rs) = Inr (acc @ rs)"
  using assms
proof (induction rs arbitrary: n acc)
  case (Cons r rs)
  obtain f fs where r: "r = f # fs" using Cons.prems(1) by (cases r) auto
  have "csv_scan LineStart n [] [] acc (csv_write (r # rs)) =
        csv_scan FieldStart n [] [] acc (write_fields r @ CHR 0x0A # csv_write rs)"
    by (cases fs) (simp_all add: csv_write_def r quote_field_def)
  also have "\<dots> = csv_scan LineStart m [] [] (acc @ [r]) (csv_write rs)"
    using Cons.prems by (auto simp: csv_scan_fields emit_record_def)
  also have "\<dots> = Inr (acc @ r # rs)" using Cons.prems by (simp add: Cons.IH)
  finally show ?case .
qed (simp add: csv_write_def)

lemma write_fields_no_cr:
  "list_all (\<lambda>f. CHR 0x0D \<notin> set f) r \<Longrightarrow> CHR 0x0D \<notin> set (write_fields r)"
  by (induction r rule: write_fields.induct) (auto simp: quote_field_def)

lemma map_sum_snd_Inr: "map_sum id snd x = Inr b \<longleftrightarrow> (\<exists>a. x = Inr (a, b))"
  by (cases x) auto

lemma emit_record_rectangular:
  assumes "emit_record n r acc = Inr (n', acc')" and "r \<noteq> []" and "rectangular n acc"
  shows "rectangular n' acc'"
  using assms by (auto simp: emit_record_def rectangular_def split: if_splits)

lemma csv_scan_rectangular:
  "csv_scan st n f rec acc s = Inr rs \<Longrightarrow> rectangular n acc \<Longrightarrow> \<exists>n'. rectangular n' rs"
proof (induction st n f rec acc s rule: csv_scan.induct)
  case (3 n f rec acc)
  then show ?case by (auto simp: map_sum_snd_Inr dest: emit_record_rectangular)
next
  case (4 n f rec acc)
  then show ?case by (auto simp: map_sum_snd_Inr dest: emit_record_rectangular)
next
  case (6 n f rec acc)
  then show ?case by (auto simp: map_sum_snd_Inr dest: emit_record_rectangular)
next
  case (9 n f rec acc c cs)
  then show ?case by (auto dest: emit_record_rectangular split: if_splits sum.splits)
next
  case (10 n f rec acc c cs)
  then show ?case by (auto dest: emit_record_rectangular split: if_splits sum.splits)
next
  case (12 n f rec acc c cs)
  then show ?case by (auto dest: emit_record_rectangular split: if_splits sum.splits)
qed (auto split: if_splits)

subsection \<open>The pipeline\<close>

lemma csv_scan_comment_eof:
  "CHR 0x0A \<notin> set xs \<Longrightarrow> csv_scan CommentLine n f rec acc xs = Inr acc"
  by (induction xs arbitrary: f rec) auto

lemma determine_encoding_short:
  "length src < 1024 \<Longrightarrow> determine_encoding_from_reader detect src = Inl ErrEOF"
  by (simp add: determine_encoding_from_reader_def peek_def default_buf_size_def)

lemma do_convert_long:
  assumes "1024 \<le> length src" and "\<forall>b. fst (detect b) = dec"
  shows "do_convert detect t it0 its src =
     (case csv_read_all (dec src) of
        Inl err \<Rightarrow> Inl (CsvFatal err)
      | Inr [] \<Rightarrow> Inl IndexPanic
      | Inr (header # records) \<Rightarrow>
          map_sum RowFatal id (materialize_records (parse_struct_tags t header it0 its) records []))"
proof -
  obtain d nm c where det: "detect (take 1024 src) = (d, nm, c)" by (cases "detect (take 1024 src)") auto
  then have "d = dec" using assms(2) by (metis fst_conv)
  then show ?thesis using assms(1) det
    by (simp add: do_convert_def determine_encoding_from_reader_def peek_def default_buf_size_def)
qed

lemma csv_scan_comment_padding:
  "csv_scan CommentLine n f rec acc (replicate k (CHR ''x'')) = Inr acc"
  by (simp add: csv_scan_comment_eof)

lemmas padded_eval = csv_read_all_def normalize_newlines_no_cr csv_scan_comment_padding emit_record_def

subsection \<open>Main properties of the reader and the pipeline\<close>

text \<open>
  C13: the reader inverts the reference writer: a list of records, each with at
  least one field and all with the same number of fields, written with every
  field quoted and read back, is the same list, whatever delimiters, quotes and
  line feeds its fields contain (a carriage return is the one byte the reader
  normalises)
\<close>

theorem csv_roundtrip:
  assumes "list_all (\<lambda>r. r \<noteq> [] \<and> length r = m) rs"
    and "list_all (list_all (\<lambda>f. CHR 0x0D \<notin> set f)) rs"
  shows "csv_read_all (csv_write rs) = Inr rs"
proof -
  have "CHR 0x0D \<notin> set (write_fields r)" if "r \<in> set rs" for r
    using assms(2) that by (intro write_fields_no_cr) (simp add: list_all_iff)
  then have "CHR 0x0D \<notin> set (csv_write rs)" by (auto simp: csv_write_def)
  then show ?thesis
    using csv_scan_write [OF assms(1), of 0 "[]"] by (simp add: csv_read_all_def normalize_newlines_no_cr)
qed

text \<open>
  C14: every table the reader returns is rectangular: each record has at least
  one field and as many as the first record, so a row whose cell count differs
  from the header's is never returned
\<close>

theorem csv_read_all_rectangular:
  assumes "csv_read_all s = Inr rs"
  shows "list_all (\<lambda>r. r \<noteq> [] \<and> length r = length (hd rs)) rs"
proof -
  have "rectangular 0 []" by (simp add: rectangular_def)
  with assms obtain n where "rectangular n rs"
    unfolding csv_read_all_def by (blast dest: csv_scan_rectangular)
  then show ?thesis by (cases rs) (auto simp: rectangular_def list_all_iff)
qed

text \<open>
  C15: an input shorter than 1024 bytes never reaches the reader: \<open>Peek(1024)\<close>
  returns \<open>io.EOF\<close>, \<open>DetermineEncodingFromReader\<close> returns it, and \<open>doConvert\<close>
  panics (lines 139--142 and 180--183), whatever the detector, the struct and the
  input
\<close>

theorem short_input_panics:
  assumes "length src < 1024"
  shows "do_convert detect t it0 its src = Inl (EncodingPanic ErrEOF)"
  using assms by (simp add: do_convert_def determine_encoding_short)

text \<open>
  C16: the specification's scenario end to end: the CSV text with header
  \<open>A;"B;extra"\<close> and body row \<open>1;2\<close>, padded by a comment line to the 1024
  bytes the encoding detection needs, decoded by a detector that keeps the bytes,
  converts to the single record \<open>{F1: "1", F2: "2"}\<close> under every admissible
  iteration order
\<close>

theorem scenario_end_to_end:
  assumes "iteration_order [''A'', ''B;extra''] it0"
    and "\<forall>k<2. iteration_order [''A'', ''B;extra''] (its k)"
    and "\<forall>b. fst (detect b) = (\<lambda>x. x)"
  shows "do_convert detect [sf ''F1'' ''string'' ''A'', sf ''F2'' ''string'' ''B...''] it0 its
           (''A;'' @ [CHR 0x22] @ ''B;extra'' @ [CHR 0x22, CHR 0x0A] @ ''1;2'' @ [CHR 0x0A]
            @ CHR ''#'' # replicate 1100 (CHR ''x''))
         = Inr [[(''F1'', GoString ''1''), (''F2'', GoString ''2'')]]"
proof -
  have csv: "csv_read_all (''A;'' @ [CHR 0x22] @ ''B;extra'' @ [CHR 0x22, CHR 0x0A] @ ''1;2'' @ [CHR 0x0A]
            @ CHR ''#'' # replicate 1100 (CHR ''x'')) = Inr [[''A'', ''B;extra''], [''1'', ''2'']]"
    by (simp add: padded_eval)
  have "\<forall>k<length [sf ''F1'' ''string'' ''A'', sf ''F2'' ''string'' ''B...''].
          iteration_order [''A'', ''B;extra''] (its k)"
    using assms(2) by (simp add: numeral_2_eq_2)
  from materialize_canonical [OF assms(1) this scenario_tags] scenario_canonical_rows
  have rows: "materialize_records (parse_struct_tags [sf ''F1'' ''string'' ''A'', sf ''F2'' ''string'' ''B...'']
      [''A'', ''B;extra''] it0 its) [[''1'', ''2'']] [] = Inr [[(''F1'', GoString ''1''), (''F2'', GoString ''2'')]]"
    by blast
  show ?thesis by (subst do_convert_long [OF _ assms(3)]) (simp_all add: padded_eval rows del: materialize_records.simps)
qed

text \<open>
  C17: boundary inputs, for every schema and map order and a detector that
  keeps the bytes: a 1101-byte input holding only a comment line panics at
  \<open>records[0]\<close> (line 198), the header \<open>A;B\<close> padded by a comment line past
  1024 bytes converts to no records, and the 4-byte header-only input
  \<open>A;B\<close> panics in the encoding detection
\<close>

theorem boundary_inputs:
  assumes "\<forall>b. fst (detect b) = (\<lambda>x. x)"
  shows "do_convert detect t it0 its (CHR ''#'' # replicate 1100 (CHR ''x'')) = Inl IndexPanic \<and>
         do_convert detect t it0 its (''A;B'' @ CHR 0x0A # CHR ''#'' # replicate 1100 (CHR ''x'')) = Inr [] \<and>
         do_convert detect t it0 its (''A;B'' @ [CHR 0x0A]) = Inl (EncodingPanic ErrEOF)"
proof (intro conjI)
  have "csv_read_all (CHR ''#'' # replicate 1100 (CHR ''x'')) = Inr []"
    by (simp add: padded_eval)
  then show "do_convert detect t it0 its (CHR ''#'' # replicate 1100 (CHR ''x'')) = Inl IndexPanic"
    by (subst do_convert_long [OF _ assms]) simp_all
  have "csv_read_all (''A;B'' @ CHR 0x0A # CHR ''#'' # replicate 1100 (CHR ''x'')) = Inr [[''A'', ''B'']]"
    by (simp add: padded_eval)
  then show "do_convert detect t it0 its (''A;B'' @ CHR 0x0A # CHR ''#'' # replicate 1100 (CHR ''x'')) = Inr []"
    by (subst do_convert_long [OF _ assms]) simp_all
  show "do_convert detect t it0 its (''A;B'' @ [CHR 0x0A]) = Inl (EncodingPanic ErrEOF)"
    by (simp add: do_convert_def determine_encoding_short)
qed

subsection \<open>Witnesses\<close>

theorem csv_roundtrip_witness:
  "csv_read_all (csv_write [[''A'', ''B;extra''], [''1'', ''2'']]) = Inr [[''A'', ''B;extra''], [''1'', ''2'']]"
  using csv_roundtrip [of 2 "[[''A'', ''B;extra''], [''1'', ''2'']]"] by simp

theorem csv_read_all_rectangular_witness:
  "csv_read_all (''a;b'' @ [CHR 0x0D, CHR 0x0A] @ ''#c;d;e'' @ [CHR 0x0A, CHR 0x0A, CHR 0x22] @ ''x;y''
       @ [CHR 0x22] @ '';z'') = Inr [[''a'', ''b''], [''x;y'', ''z'']] \<and>
   list_all (\<lambda>r. r \<noteq> [] \<and> length r = length (hd [[''a'', ''b''], [''x;y'', ''z'']])) [[''a'', ''b''], [''x;y'', ''z'']]"
proof -
  have run: "csv_read_all (''a;b'' @ [CHR 0x0D, CHR 0x0A] @ ''#c;d;e'' @ [CHR 0x0A, CHR 0x0A, CHR 0x22] @ ''x;y''
       @ [CHR 0x22] @ '';z'') = Inr [[''a'', ''b''], [''x;y'', ''z'']]"
    by (simp add: csv_read_all_def emit_record_def)
  show ?thesis using run csv_read_all_rectangular [OF run] by simp
qed

theorem short_input_panics_witness:
  "do_convert (\<lambda>b. (\<lambda>x. x, ''utf-8'', True)) [sf ''F1'' ''string'' ''A'', sf ''F2'' ''string'' ''B...'']
     (header_entries [''A'', ''B;extra'']) (\<lambda>_. header_entries [''A'', ''B;extra''])
     (''A;'' @ [CHR 0x22] @ ''B;extra'' @ [CHR 0x22, CHR 0x0A] @ ''1;2'' @ [CHR 0x0A])
   = Inl (EncodingPanic ErrEOF)"
  by (rule short_input_panics) simp


theorem scenario_end_to_end_witness:
  "do_convert (\<lambda>b. (\<lambda>x. x, ''utf-8'', True)) [sf ''F1'' ''string'' ''A'', sf ''F2'' ''string'' ''B...'']
     [(''B;extra'', 1), (''A'', 0)] (\<lambda>_. [(''A'', 0), (''B;extra'', 1)])
     (''A;'' @ [CHR 0x22] @ ''B;extra'' @ [CHR 0x22, CHR 0x0A] @ ''1;2'' @ [CHR 0x0A]
      @ CHR ''#'' # replicate 1100 (CHR ''x''))
   = Inr [[(''F1'', GoString ''1''), (''F2'', GoString ''2'')]]"
  by (rule scenario_end_to_end) (simp_all add: iteration_order_def header_entries_def)

theorem boundary_inputs_witness:
  "do_convert (\<lambda>b. (\<lambda>x. x, ''utf-8'', True)) comune_struct [] (\<lambda>_. []) (CHR ''#'' # replicate 1100 (CHR ''x''))
     = Inl IndexPanic \<and>
   do_convert (\<lambda>b. (\<lambda>x. x, ''utf-8'', True)) comune_struct [] (\<lambda>_. [])
     (''A;B'' @ CHR 0x0A # CHR ''#'' # replicate 1100 (CHR ''x'')) = Inr [] \<and>
   do_convert (\<lambda>b. (\<lambda>x. x, ''utf-8'', True)) comune_struct [] (\<lambda>_. []) (''A;B'' @ [CHR 0x0A])
     = Inl (EncodingPanic ErrEOF)"
  by (rule boundary_inputs) simp

end
