(* ===== verification/Json.thy ===== *)
theory Json
  imports Materializer
begin

text \<open>
  The JSON output of the converter and its reading by the example.
  \<open>doConvert\<close> ends with \<open>json.Marshal(&comuniList)\<close> (\<open>src/cmd/go-comuni/main.go\<close>,
  lines 248--251) and \<open>src/example/example.go\<close> reads the file back with
  \<open>json.Unmarshal(data, &comuniSlice)\<close> (lines 25--28).  Both are library code
  of \<open>encoding/json\<close> and are modelled from its implementation for the one type
  they are used with, \<open>[]comuni.Comune\<close>, whose fields carry the \<open>json\<close> tags of
  \<open>src/comuni.go\<close>.  The encoder escapes strings as \<open>appendString\<close> does with
  HTML escaping on; the decoder is a syntax check and parse of the whole input
  (\<open>checkValid\<close> and the \<open>scanner\<close>), the unquoting of strings (\<open>unquote\<close>),
  and the store of each value into the \<open>Comune\<close> field its key names.
\<close>

section \<open>The json tags of Comune\<close>

text \<open>\<open>src/comuni.go\<close>: the \<open>json\<close> tag of each field of \<open>Comune\<close>.\<close>

definition comune_json_tags :: "(string \<times> string) list" where
  "comune_json_tags = [
     (''CodiceRegione'', ''codice_regione''),
     (''CodiceUnitaTerritoriale'', ''codice_unita_territoriale''),
     (''CodiceProvincia'', ''codice_provincia''),
     (''ProgressivoComune'', ''progressivo_comune''),
     (''CodiceComune'', ''codice_comune''),
     (''Denominazione'', ''denominazione''),
     (''DenominazioneIta'', ''denominazione_ita''),
     (''DenominazioneNonIta'', ''denominazione_non_ita''),
     (''CodiceRipartizioneGeo'', ''codice_ripartizione_geo''),
     (''RipartizioneGeo'', ''ripartizione_geo''),
     (''DenominazioneRegione'', ''denominazione_regione''),
     (''DenominazioneUnitaTerritoriale'', ''denominazione_unita_territoriale''),
     (''TipologiaUnitaTerritoriale'', ''tipologia_unita_territoriale''),
     (''ComuneCapoluogo'', ''comune_capoluogo''),
     (''SiglaAutomobilistica'', ''sigla_automobilistica''),
     (''CodiceComuneNumerico'', ''codice_comune_numerico''),
     (''CodiceComuneNumerico110'', ''codice_comune_numerico_110''),
     (''CodiceComuneNumerico107'', ''codice_comune_numerico_107''),
     (''CodiceComuneNumerico103'', ''codice_comune_numerico_103''),
     (''Codice_NUTS1_2010'', ''codice_nuts1_2010''),
     (''Codice_NUTS2_2010'', ''codice_nuts2_2010''),
     (''Codice_NUTS3_2010'', ''codice_nuts3_2010''),
     (''Codice_NUTS1_2021'', ''codice_nuts1_2021''),
     (''Codice_NUTS2_2021'', ''codice_nuts2_2021''),
     (''Codice_NUTS3_2021'', ''codice_nuts3_2021'')]"

text \<open>The key of a field: its tag, or its name when it has none.\<close>

definition json_key :: "string \<Rightarrow> string" where
  "json_key n = (case map_of comune_json_tags n of Some k \<Rightarrow> k | None \<Rightarrow> n)"

section \<open>json.Marshal\<close>

definition hex_digit :: "nat \<Rightarrow> char" where
  "hex_digit n = ''0123456789abcdef'' ! n"

text \<open>\<open>htmlSafeSet\<close>: the ASCII bytes copied as they are.\<close>

definition html_safe :: "char \<Rightarrow> bool" where
  "html_safe c \<longleftrightarrow> 0x20 \<le> byte_val c \<and> byte_val c < 0x80 \<and>
     c \<notin> {CHR 0x22, CHR 0x5C, CHR ''<'', CHR ''>'', CHR ''&''}"

text \<open>The escape of any other ASCII byte.\<close>

definition escape_ascii :: "char \<Rightarrow> bytes" where
  "escape_ascii c =
     (if c = CHR 0x5C \<or> c = CHR 0x22 then [CHR 0x5C, c]
      else if c = CHR 0x08 then [CHR 0x5C, CHR ''b'']
      else if c = CHR 0x0C then [CHR 0x5C, CHR ''f'']
      else if c = CHR 0x0A then [CHR 0x5C, CHR ''n'']
      else if c = CHR 0x0D then [CHR 0x5C, CHR ''r'']
      else if c = CHR 0x09 then [CHR 0x5C, CHR ''t'']
      else [CHR 0x5C, CHR ''u'', CHR ''0'', CHR ''0'', hex_digit (byte_val c div 16), hex_digit (byte_val c mod 16)])"

text \<open>
  \<open>appendString\<close> without its quotes: ASCII bytes are copied or escaped, a byte
  that starts no valid sequence becomes the escape of U+FFFD, U+2028 and U+2029 are escaped,
  and every other sequence is copied.
\<close>

function json_string_body :: "bytes \<Rightarrow> bytes" where
  "json_string_body [] = []"
| "json_string_body (c # cs) =
     (if byte_val c < rune_self then
        (if html_safe c then [c] else escape_ascii c) @ json_string_body cs
      else
        (let (r, n) = decode_rune (c # cs) in
         (if r = rune_error \<and> n = 1 then [CHR 0x5C, CHR ''u'', CHR ''f'', CHR ''f'', CHR ''f'', CHR ''d'']
          else if r = 0x2028 \<or> r = 0x2029 then [CHR 0x5C, CHR ''u'', CHR ''2'', CHR ''0'', CHR ''2'', hex_digit (r mod 16)]
          else take n (c # cs))
         @ json_string_body (drop n (c # cs))))"
  by pat_completeness auto
termination
proof (relation "measure length")
  fix c :: char and cs :: bytes and x :: "rune \<times> nat" and r n
  assume "x = decode_rune (c # cs)" and "(r, n) = x"
  then have "decode_rune (c # cs) = (r, n)" by simp
  then have "0 < n" using decode_rune_width by blast
  then show "(drop n (c # cs), c # cs) \<in> measure length" by simp
qed simp_all

definition json_quote :: "bytes \<Rightarrow> bytes" where
  "json_quote s = CHR 0x22 # json_string_body s @ [CHR 0x22]"

text \<open>\<open>strconv.AppendInt(b, i, 10)\<close>.\<close>

fun nat_dec :: "nat \<Rightarrow> string" where
  "nat_dec n = (if n < 10 then [char_of (0x30 + n)] else nat_dec (n div 10) @ [char_of (0x30 + n mod 10)])"

declare nat_dec.simps [simp del]

definition int_dec :: "int \<Rightarrow> string" where
  "int_dec i = (if i < 0 then CHR ''-'' # nat_dec (nat (- i)) else nat_dec (nat i))"

datatype marshal_error = UnsupportedType string

text \<open>
  The encoding of a field value.  A field of a type other than the four the
  converter stores is outside the model and reported as unsupported.
\<close>

fun json_value :: "go_value \<Rightarrow> marshal_error + bytes" where
  "json_value (GoString s) = Inr (json_quote s)"
| "json_value (GoBool b) = Inr (if b then ''true'' else ''false'')"
| "json_value (GoInt32 w) = Inr (int_dec (sint w))"
| "json_value (GoInt64 w) = Inr (int_dec (sint w))"
| "json_value (GoZero t) = Inl (UnsupportedType t)"

text \<open>The separator the encoders write between elements and members.\<close>

fun comma_join :: "bytes list \<Rightarrow> bytes" where
  "comma_join [] = []"
| "comma_join [b] = b"
| "comma_join (b # bs) = b @ CHR '','' # comma_join bs"

text \<open>\<open>structEncoder\<close>: the fields in declaration order, as \<open>"key":value\<close>.\<close>

fun json_members :: "go_object \<Rightarrow> marshal_error + bytes list" where
  "json_members [] = Inr []"
| "json_members ((n, v) # fs) =
     bind_res (json_value v) (\<lambda>b. map_sum id (\<lambda>bs. (json_quote (json_key n) @ '':'' @ b) # bs) (json_members fs))"

definition json_object :: "go_object \<Rightarrow> marshal_error + bytes" where
  "json_object c = map_sum id (\<lambda>ms. CHR ''{'' # comma_join ms @ ''}'') (json_members c)"

fun json_objects :: "go_object list \<Rightarrow> marshal_error + bytes list" where
  "json_objects [] = Inr []"
| "json_objects (c # cs) = bind_res (json_object c) (\<lambda>b. map_sum id (Cons b) (json_objects cs))"

text \<open>\<open>json.Marshal(&comuniList)\<close>: a non-nil slice, so \<open>[]\<close> when it is empty.\<close>

definition json_marshal :: "go_object list \<Rightarrow> marshal_error + bytes" where
  "json_marshal cs = map_sum id (\<lambda>os. CHR ''['' # comma_join os @ '']'') (json_objects cs)"

section \<open>json.Unmarshal\<close>

datatype json =
    JNull | JBool bool | JNumber string | JString string
  | JArray "json list" | JObject "(string \<times> json) list"

datatype json_error = SyntaxError | UnmarshalTypeError string string

text \<open>The scanner's white space.\<close>

fun skip_ws :: "bytes \<Rightarrow> bytes" where
  "skip_ws [] = []"
| "skip_ws (c # cs) = (if c \<in> {CHR '' '', CHR 0x09, CHR 0x0A, CHR 0x0D} then skip_ws cs else c # cs)"

definition hex_val :: "char \<Rightarrow> nat option" where
  "hex_val c =
     (if 0x30 \<le> byte_val c \<and> byte_val c \<le> 0x39 then Some (byte_val c - 0x30)
      else if 0x61 \<le> byte_val c \<and> byte_val c \<le> 0x66 then Some (byte_val c - 0x57)
      else if 0x41 \<le> byte_val c \<and> byte_val c \<le> 0x46 then Some (byte_val c - 0x37)
      else None)"

text \<open>\<open>getu4\<close>: the value of \<open>\uXXXX\<close> at the start of a byte string.\<close>

fun get_u4 :: "bytes \<Rightarrow> nat option" where
  "get_u4 (b # u # h1 # h2 # h3 # h4 # _) =
     (if b = CHR 0x5C \<and> u = CHR ''u'' then
        (case (hex_val h1, hex_val h2, hex_val h3, hex_val h4) of
           (Some a, Some b, Some c, Some d) \<Rightarrow> Some (((a * 16 + b) * 16 + c) * 16 + d)
         | _ \<Rightarrow> None)
      else None)"
| "get_u4 _ = None"

definition is_surrogate :: "nat \<Rightarrow> bool" where
  "is_surrogate r \<longleftrightarrow> 0xD800 \<le> r \<and> r < 0xE000"

text \<open>\<open>utf16.DecodeRune\<close>.\<close>

definition utf16_decode :: "nat \<Rightarrow> nat option \<Rightarrow> rune" where
  "utf16_decode r1 r2 =
     (case r2 of
        Some r2 \<Rightarrow> if 0xD800 \<le> r1 \<and> r1 < 0xDC00 \<and> 0xDC00 \<le> r2 \<and> r2 < 0xE000
                   then (r1 - 0xD800) * 1024 + (r2 - 0xDC00) + 0x10000 else rune_error
      | None \<Rightarrow> rune_error)"

text \<open>
  One step of \<open>unquote\<close> on the bytes of a string literal: the bytes it writes
  and the number of input bytes it reads, or \<open>None\<close> on a syntax error (an
  unknown escape, a bad unicode escape, a control byte).  An escaped surrogate pair
  is one rune; a lone surrogate and a byte that starts no valid sequence become
  U+FFFD, since every rune is written with \<open>EncodeRune\<close>.
\<close>

definition unquote_step :: "bytes \<Rightarrow> (bytes \<times> nat) option" where
  "unquote_step s =
     (case s of
        [] \<Rightarrow> None
      | c # cs \<Rightarrow>
          if c = CHR 0x5C then
            (case cs of
               [] \<Rightarrow> None
             | d # ds \<Rightarrow>
                 if d \<in> {CHR 0x22, CHR 0x5C, CHR ''/''} then Some ([d], 2)
                 else if d = CHR ''b'' then Some ([CHR 0x08], 2)
                 else if d = CHR ''f'' then Some ([CHR 0x0C], 2)
                 else if d = CHR ''n'' then Some ([CHR 0x0A], 2)
                 else if d = CHR ''r'' then Some ([CHR 0x0D], 2)
                 else if d = CHR ''t'' then Some ([CHR 0x09], 2)
                 else if d = CHR ''u'' then
                   (case get_u4 s of
                      None \<Rightarrow> None
                    | Some rr \<Rightarrow>
                        if is_surrogate rr \<and> utf16_decode rr (get_u4 (drop 6 s)) \<noteq> rune_error
                        then Some (encode_rune (utf16_decode rr (get_u4 (drop 6 s))), 12)
                        else if is_surrogate rr then Some (encode_rune rune_error, 6)
                        else Some (encode_rune rr, 6))
                 else None)
          else if byte_val c < 0x20 then None
          else if byte_val c < rune_self then Some ([c], 1)
          else (let (rr, n) = decode_rune s in Some (encode_rune rr, n)))"

text \<open>
  A string literal after its opening quote: the unquoted bytes and the input
  after the closing quote, or \<open>None\<close> on a syntax error or a missing closing
  quote.
\<close>

function json_unquote :: "bytes \<Rightarrow> (bytes \<times> bytes) option" where
  "json_unquote [] = None"
| "json_unquote (c # cs) =
     (if c = CHR 0x22 then Some ([], cs)
      else
        (case unquote_step (c # cs) of
           None \<Rightarrow> None
         | Some (out, n) \<Rightarrow> map_option (apfst ((@) out)) (json_unquote (drop n (c # cs)))))"
  by pat_completeness auto
termination
  by (relation "measure length")
    (auto simp: unquote_step_def Let_def split: list.splits if_splits option.splits prod.splits
      dest: decode_rune_width)

text \<open>
  The scanner's number: \<open>-?(0|[1-9][0-9]*)(\.[0-9]+)?([eE][+-]?[0-9]+)?\<close>, as
  its literal text and the rest of the input.
\<close>

definition scan_digits :: "bytes \<Rightarrow> bytes \<times> bytes" where
  "scan_digits s = (takeWhile is_digit s, dropWhile is_digit s)"

definition scan_frac :: "bytes \<Rightarrow> (bytes \<times> bytes) option" where
  "scan_frac s =
     (case s of
        c # cs \<Rightarrow> if c = CHR ''.'' then
                   (case scan_digits cs of ([], _) \<Rightarrow> None | (ds, r) \<Rightarrow> Some (c # ds, r))
                 else Some ([], s)
      | [] \<Rightarrow> Some ([], []))"

definition scan_exp :: "bytes \<Rightarrow> (bytes \<times> bytes) option" where
  "scan_exp s =
     (case s of
        c # cs \<Rightarrow>
          if c = CHR ''e'' \<or> c = CHR ''E'' then
            (let (sg, r) = (case cs of d # ds \<Rightarrow> if d = CHR ''+'' \<or> d = CHR ''-'' then ([d], ds) else ([], cs)
                                      | [] \<Rightarrow> ([], []))
             in case scan_digits r of ([], _) \<Rightarrow> None | (ds, r') \<Rightarrow> Some (c # sg @ ds, r'))
          else Some ([], s)
      | [] \<Rightarrow> Some ([], []))"

definition scan_unsigned :: "bytes \<Rightarrow> (string \<times> bytes) option" where
  "scan_unsigned s =
     (case s of
        [] \<Rightarrow> None
      | d # ds \<Rightarrow>
          if \<not> is_digit d then None
          else
            (let (ip, s2) = (if d = CHR ''0'' then ([d], ds) else scan_digits s)
             in case scan_frac s2 of
                  None \<Rightarrow> None
                | Some (fp, s3) \<Rightarrow>
                    (case scan_exp s3 of
                       None \<Rightarrow> None
                     | Some (ep, s4) \<Rightarrow> Some (ip @ fp @ ep, s4))))"

definition scan_number :: "bytes \<Rightarrow> (string \<times> bytes) option" where
  "scan_number s =
     (case s of
        [] \<Rightarrow> None
      | c # cs \<Rightarrow> if c = CHR ''-'' then map_option (apfst (Cons c)) (scan_unsigned cs) else scan_unsigned s)"

text \<open>A string, a literal or a number at the start of a value.\<close>

definition jscalar :: "bytes \<Rightarrow> json_error + json \<times> bytes" where
  "jscalar s =
     (case s of
        [] \<Rightarrow> Inl SyntaxError
      | c # r \<Rightarrow>
          if c = CHR 0x22 then
            (case json_unquote r of
               None \<Rightarrow> Inl SyntaxError
             | Some (str, r') \<Rightarrow> Inr (JString str, r'))
          else if take 4 s = ''true'' then Inr (JBool True, drop 4 s)
          else if take 5 s = ''false'' then Inr (JBool False, drop 5 s)
          else if take 4 s = ''null'' then Inr (JNull, drop 4 s)
          else
            (case scan_number s of
               None \<Rightarrow> Inl SyntaxError
             | Some (lit, r') \<Rightarrow> Inr (JNumber lit, r')))"

datatype pmode = PValue | PElems "json list" | PMembers "(string \<times> json) list"

text \<open>
  The parser: a value; the elements of an array after its first \<open>[\<close>; the
  members of an object after its first \<open>{\<close>.  \<open>None\<close> is a parse that does not
  end (\<open>jparse_total_rest\<close> shows there is none); \<open>Some (Inl SyntaxError)\<close> is
  rejected input.
\<close>

partial_function (option) jparse :: "pmode \<Rightarrow> bytes \<Rightarrow> (json_error + json \<times> bytes) option" where
  "jparse m s =
     (case m of
        PValue \<Rightarrow>
          (case skip_ws s of
             [] \<Rightarrow> Some (Inl SyntaxError)
           | c # r \<Rightarrow>
               if c = CHR ''{'' then
                 (case skip_ws r of
                    d # r' \<Rightarrow> if d = CHR ''}'' then Some (Inr (JObject [], r')) else jparse (PMembers []) r
                  | [] \<Rightarrow> Some (Inl SyntaxError))
               else if c = CHR ''['' then
                 (case skip_ws r of
                    d # r' \<Rightarrow> if d = CHR '']'' then Some (Inr (JArray [], r')) else jparse (PElems []) r
                  | [] \<Rightarrow> Some (Inl SyntaxError))
               else Some (jscalar (c # r)))
      | PElems acc \<Rightarrow>
          Option.bind (jparse PValue s) (\<lambda>res.
            case res of
              Inl e \<Rightarrow> Some (Inl e)
            | Inr (v, r) \<Rightarrow>
                (case skip_ws r of
                   d # r' \<Rightarrow> if d = CHR '','' then jparse (PElems (acc @ [v])) r'
                            else if d = CHR '']'' then Some (Inr (JArray (acc @ [v]), r'))
                            else Some (Inl SyntaxError)
                 | [] \<Rightarrow> Some (Inl SyntaxError)))
      | PMembers acc \<Rightarrow>
          (case skip_ws s of
             d # r \<Rightarrow>
               if d \<noteq> CHR 0x22 then Some (Inl SyntaxError)
               else
                 (case json_unquote r of
                    None \<Rightarrow> Some (Inl SyntaxError)
                  | Some (k, r1) \<Rightarrow>
                      (case skip_ws r1 of
                         e # r2 \<Rightarrow>
                           if e \<noteq> CHR '':'' then Some (Inl SyntaxError)
                           else
                             Option.bind (jparse PValue r2) (\<lambda>res.
                               case res of
                                 Inl err \<Rightarrow> Some (Inl err)
                               | Inr (v, r3) \<Rightarrow>
                                   (case skip_ws r3 of
                                      f # r4 \<Rightarrow>
                                        if f = CHR '','' then jparse (PMembers (acc @ [(k, v)])) r4
                                        else if f = CHR ''}'' then Some (Inr (JObject (acc @ [(k, v)]), r4))
                                        else Some (Inl SyntaxError)
                                    | [] \<Rightarrow> Some (Inl SyntaxError)))
                       | [] \<Rightarrow> Some (Inl SyntaxError)))
           | [] \<Rightarrow> Some (Inl SyntaxError)))"

declare jparse.simps [code]

text \<open>\<open>checkValid\<close> and the parse of the whole input: one value, then white space.\<close>

definition json_parse :: "bytes \<Rightarrow> (json_error + json) option" where
  "json_parse s =
     Option.bind (jparse PValue s) (\<lambda>res.
       Some (case res of
               Inl e \<Rightarrow> Inl e
             | Inr (v, r) \<Rightarrow> if skip_ws r = [] then Inr v else Inl SyntaxError))"

text \<open>
  The fields a key can name: the key itself (\<open>byExactName\<close>), else the first
  field whose key equals it under case folding (\<open>byFoldedName\<close>).
\<close>

definition comune_json_fields :: "(string \<times> string \<times> string) list" where
  "comune_json_fields = map (\<lambda>f. (json_key (field_name f), field_name f, field_type f)) comune_struct"

definition lookup_json_field :: "string \<Rightarrow> (string \<times> string) option" where
  "lookup_json_field k =
     (case find (\<lambda>(j, _). j = k) comune_json_fields of
        Some (_, nt) \<Rightarrow> Some nt
      | None \<Rightarrow> map_option snd (find (\<lambda>(j, _). equal_fold j k) comune_json_fields))"

definition json_kind :: "json \<Rightarrow> string" where
  "json_kind j = (case j of JNull \<Rightarrow> ''null'' | JBool _ \<Rightarrow> ''bool'' | JNumber _ \<Rightarrow> ''number''
     | JString _ \<Rightarrow> ''string'' | JArray _ \<Rightarrow> ''array'' | JObject _ \<Rightarrow> ''object'')"

text \<open>
  \<open>literalStore\<close> into the field \<open>n\<close> of type \<open>t\<close>: \<open>null\<close> leaves it as it is, a
  number is read with \<open>strconv.ParseInt(s, 10, 64)\<close> and must fit the field, and
  a value of another kind is an \<open>UnmarshalTypeError\<close>.
\<close>

definition store_field :: "string \<Rightarrow> string \<Rightarrow> json \<Rightarrow> go_object \<Rightarrow> json_error + go_object" where
  "store_field n t j obj =
     (case j of
        JNull \<Rightarrow> Inr obj
      | JString s \<Rightarrow> if t = ''string'' then Inr (set_field n (GoString s) obj) else Inl (UnmarshalTypeError ''string'' n)
      | JBool b \<Rightarrow> if t = ''bool'' then Inr (set_field n (GoBool b) obj) else Inl (UnmarshalTypeError ''bool'' n)
      | JNumber lit \<Rightarrow>
          (case parse_int lit 64 of
             (v, None) \<Rightarrow>
               if t = ''int32'' \<and> - (2 ^ 31) \<le> sint v \<and> sint v < 2 ^ 31 then Inr (set_field n (GoInt32 (scast v)) obj)
               else if t = ''int'' \<or> t = ''int64'' then Inr (set_field n (GoInt64 v) obj)
               else Inl (UnmarshalTypeError (''number '' @ lit) n)
           | (_, Some _) \<Rightarrow> Inl (UnmarshalTypeError (''number '' @ lit) n))
      | _ \<Rightarrow> Inl (UnmarshalTypeError (json_kind j) n))"

text \<open>An element of the array: an object, or \<open>null\<close> for a zero \<open>Comune\<close>.\<close>

definition store_member :: "go_object \<Rightarrow> string \<times> json \<Rightarrow> json_error + go_object" where
  "store_member obj kj =
     (case kj of (k, j) \<Rightarrow>
        (case lookup_json_field k of None \<Rightarrow> Inr obj | Some (n, t) \<Rightarrow> store_field n t j obj))"

definition decode_comune :: "json \<Rightarrow> json_error + go_object" where
  "decode_comune j =
     (case j of
        JNull \<Rightarrow> Inr (new_struct comune_struct)
      | JObject ms \<Rightarrow> fold_res store_member ms (new_struct comune_struct)
      | _ \<Rightarrow> Inl (UnmarshalTypeError (json_kind j) ''Comune''))"

definition decode_comuni :: "json \<Rightarrow> json_error + go_object list" where
  "decode_comuni j =
     (case j of
        JNull \<Rightarrow> Inr []
      | JArray js \<Rightarrow> fold_res (\<lambda>acc e. map_sum id (\<lambda>c. acc @ [c]) (decode_comune e)) js []
      | _ \<Rightarrow> Inl (UnmarshalTypeError (json_kind j) ''[]Comune''))"

text \<open>\<open>json.Unmarshal(data, &comuniSlice)\<close> with \<open>comuniSlice\<close> empty.\<close>

definition json_unmarshal :: "bytes \<Rightarrow> json_error + go_object list" where
  "json_unmarshal data =
     (case json_parse data of
        None \<Rightarrow> Inl SyntaxError
      | Some (Inl e) \<Rightarrow> Inl e
      | Some (Inr j) \<Rightarrow> decode_comuni j)"


section \<open>The JSON value of a record\<close>

text \<open>
  The tree \<open>json.Marshal\<close> writes for a field value and for a record: the
  abstraction under which the encoder and the decoder are inverse.
\<close>

fun json_of_value :: "go_value \<Rightarrow> json" where
  "json_of_value (GoString s) = JString s"
| "json_of_value (GoBool b) = JBool b"
| "json_of_value (GoInt32 w) = JNumber (int_dec (sint w))"
| "json_of_value (GoInt64 w) = JNumber (int_dec (sint w))"
| "json_of_value (GoZero t) = JNull"

definition json_of_object :: "go_object \<Rightarrow> json" where
  "json_of_object c = JObject (map (\<lambda>(n, v). (json_key n, json_of_value v)) c)"

text \<open>A value the encoder writes and the decoder reads back: strings must be valid UTF-8.\<close>

fun value_ok :: "go_value \<Rightarrow> bool" where
  "value_ok (GoString s) = valid_utf8 s"
| "value_ok (GoZero t) = False"
| "value_ok _ = True"

text \<open>The string fields of a record hold valid UTF-8.\<close>

definition strings_valid :: "go_object \<Rightarrow> bool" where
  "strings_valid c \<longleftrightarrow> list_all (\<lambda>(n, v). case v of GoString s \<Rightarrow> valid_utf8 s | _ \<Rightarrow> True) c"

text \<open>
  A value the encoder writes at all: every value but the zero value of a field
  of an unsupported type.
\<close>

fun value_encodes :: "go_value \<Rightarrow> bool" where
  "value_encodes (GoZero t) = False"
| "value_encodes _ = True"

text \<open>
  The bytes a string comes back as through \<open>json.Marshal\<close> and
  \<open>json.Unmarshal\<close>: the encoder coerces strings to valid UTF-8, writing
  each byte that starts no valid sequence as \<open>\ufffd\<close>, which the decoder
  reads as the three bytes of U+FFFD; every other rune comes back as it was.
\<close>

function utf8_sanitize :: "bytes \<Rightarrow> bytes" where
  "utf8_sanitize [] = []"
| "utf8_sanitize (c # cs) =
     (let (r, w) = decode_rune (c # cs) in
      (if r = rune_error \<and> w = 1 then encode_rune rune_error else take w (c # cs))
      @ utf8_sanitize (drop w (c # cs)))"
  by pat_completeness auto
termination
proof (relation "measure length")
  fix c :: char and cs :: bytes and x :: "rune \<times> nat" and r w
  assume "x = decode_rune (c # cs)" and "(r, w) = x"
  then have "decode_rune (c # cs) = (r, w)" by simp
  then have "0 < w" using decode_rune_width by blast
  then show "(drop w (c # cs), c # cs) \<in> measure length" by simp
qed simp

fun sanitize_value :: "go_value \<Rightarrow> go_value" where
  "sanitize_value (GoString s) = GoString (utf8_sanitize s)"
| "sanitize_value v = v"

definition sanitize_object :: "go_object \<Rightarrow> go_object" where
  "sanitize_object c = map (\<lambda>(n, v). (n, sanitize_value v)) c"

text \<open>
  Text that is safe to embed in HTML: no byte below 0x20 (the C0 control bytes)
  and none of \<open><\<close>, \<open>>\<close>, \<open>&\<close>, the bytes \<open>json.Marshal\<close>'s HTML
  escaping exists to keep out.
\<close>

definition embed_safe :: "bytes \<Rightarrow> bool" where
  "embed_safe s \<longleftrightarrow> list_all (\<lambda>b. 0x20 \<le> byte_val b \<and> b \<notin> {CHR ''<'', CHR ''>'', CHR ''&''}) s"

section \<open>Properties\<close>

subsection \<open>The parser ends\<close>

text \<open>
  Every step of the parser reads input, and every value it returns leaves a
  shorter rest; so the recursion is well-founded on the length of the input
  and \<open>jparse\<close> returns on every input.
\<close>

text \<open>Evaluation of a parse on a concrete input: the continuation waits for its argument.\<close>

lemma bind_weak_cong: "x = y \<Longrightarrow> Option.bind x f = Option.bind y f"
  by simp

lemma skip_ws_length: "length (skip_ws s) \<le> length s"
  by (induction s) auto

lemma unquote_step_progress: "unquote_step s = Some (out, n) \<Longrightarrow> 0 < n"
  by (auto simp: unquote_step_def Let_def split: list.splits if_splits option.splits prod.splits
      dest: decode_rune_width)

lemma json_unquote_length: "json_unquote s = Some (x, r) \<Longrightarrow> length r < length s"
proof (induction s arbitrary: x rule: json_unquote.induct)
  case 1
  then show ?case by simp
next
  case (2 c cs)
  show ?case
  proof (cases "c = CHR 0x22")
    case True
    then show ?thesis using 2(2) by simp
  next
    case False
    then obtain out n y where st: "unquote_step (c # cs) = Some (out, n)"
      and rec: "json_unquote (drop n (c # cs)) = Some (y, r)"
      using 2(2) by (auto split: option.splits)
    have "length r < length (drop n (c # cs))" using 2(1) [OF False st refl rec] .
    then show ?thesis by simp
  qed
qed

lemma scan_digits_split: "scan_digits s = (ds, r) \<Longrightarrow> ds @ r = s"
  by (auto simp: scan_digits_def)

lemma scan_digits_Cons:
  "is_digit d \<Longrightarrow> scan_digits (d # ds) = (d # takeWhile is_digit ds, dropWhile is_digit ds)"
  by (simp add: scan_digits_def)

lemma scan_frac_split: "scan_frac s = Some (fp, r) \<Longrightarrow> fp @ r = s"
  by (auto simp: scan_frac_def split: list.splits if_splits prod.splits dest!: scan_digits_split)

lemma scan_exp_split: "scan_exp s = Some (ep, r) \<Longrightarrow> ep @ r = s"
  by (auto simp: scan_exp_def Let_def split: list.splits if_splits prod.splits dest!: scan_digits_split)

lemma scan_unsigned_split:
  assumes "scan_unsigned s = Some (lit, r)"
  shows "lit @ r = s \<and> lit \<noteq> []"
  using assms
  by (auto simp: scan_unsigned_def Let_def scan_digits_Cons split: list.splits if_splits prod.splits option.splits
      dest!: scan_frac_split scan_exp_split)

lemma scan_number_split:
  assumes "scan_number s = Some (lit, r)"
  shows "lit @ r = s \<and> lit \<noteq> []"
  using assms by (auto simp: scan_number_def split: list.splits if_splits dest!: scan_unsigned_split)

lemma scan_number_length: "scan_number s = Some (lit, r) \<Longrightarrow> length r < length s"
  by (drule scan_number_split) auto

lemma jparse_PValue:
  "jparse PValue s =
     (case skip_ws s of
        [] \<Rightarrow> Some (Inl SyntaxError)
      | c # r \<Rightarrow>
          if c = CHR ''{'' then
            (case skip_ws r of
               d # r' \<Rightarrow> if d = CHR ''}'' then Some (Inr (JObject [], r')) else jparse (PMembers []) r
             | [] \<Rightarrow> Some (Inl SyntaxError))
          else if c = CHR ''['' then
            (case skip_ws r of
               d # r' \<Rightarrow> if d = CHR '']'' then Some (Inr (JArray [], r')) else jparse (PElems []) r
             | [] \<Rightarrow> Some (Inl SyntaxError))
          else Some (jscalar (c # r)))"
  by (subst jparse.simps) simp

lemma jparse_PElems:
  "jparse (PElems acc) s =
     Option.bind (jparse PValue s) (\<lambda>res.
       case res of
         Inl e \<Rightarrow> Some (Inl e)
       | Inr (v, r) \<Rightarrow>
           (case skip_ws r of
              d # r' \<Rightarrow> if d = CHR '','' then jparse (PElems (acc @ [v])) r'
                       else if d = CHR '']'' then Some (Inr (JArray (acc @ [v]), r'))
                       else Some (Inl SyntaxError)
            | [] \<Rightarrow> Some (Inl SyntaxError)))"
  by (subst jparse.simps) simp

lemma jparse_PMembers:
  "jparse (PMembers acc) s =
     (case skip_ws s of
        d # r \<Rightarrow>
          if d \<noteq> CHR 0x22 then Some (Inl SyntaxError)
          else
            (case json_unquote r of
               None \<Rightarrow> Some (Inl SyntaxError)
             | Some (k, r1) \<Rightarrow>
                 (case skip_ws r1 of
                    e # r2 \<Rightarrow>
                      if e \<noteq> CHR '':'' then Some (Inl SyntaxError)
                      else
                        Option.bind (jparse PValue r2) (\<lambda>res.
                          case res of
                            Inl err \<Rightarrow> Some (Inl err)
                          | Inr (v, r3) \<Rightarrow>
                              (case skip_ws r3 of
                                 f # r4 \<Rightarrow>
                                   if f = CHR '','' then jparse (PMembers (acc @ [(k, v)])) r4
                                   else if f = CHR ''}'' then Some (Inr (JObject (acc @ [(k, v)]), r4))
                                   else Some (Inl SyntaxError)
                               | [] \<Rightarrow> Some (Inl SyntaxError)))
                  | [] \<Rightarrow> Some (Inl SyntaxError)))
      | [] \<Rightarrow> Some (Inl SyntaxError))"
  by (subst jparse.simps) simp


lemma jscalar_length:
  assumes "jscalar s = Inr (v, r)"
  shows "length r < length s"
proof (cases s)
  case Nil
  then show ?thesis using assms by (simp add: jscalar_def)
next
  case (Cons c cs)
  consider (str) "c = CHR 0x22" | (lit) "c \<noteq> CHR 0x22" "take 4 s = ''true'' \<or> take 5 s = ''false'' \<or> take 4 s = ''null''"
    | (num) "c \<noteq> CHR 0x22" "take 4 s \<noteq> ''true''" "take 5 s \<noteq> ''false''" "take 4 s \<noteq> ''null''"
    by blast
  then show ?thesis
  proof cases
    case str
    then obtain str where "json_unquote cs = Some (str, r)"
      using assms Cons by (auto simp: jscalar_def split: option.splits)
    then show ?thesis using Cons by (auto dest: json_unquote_length)
  next
    case lit
    then have "r = drop 4 s \<or> r = drop 5 s" using assms Cons by (auto simp: jscalar_def)
    then show ?thesis using Cons by auto
  next
    case num
    then obtain lit where "scan_number s = Some (lit, r)"
      using assms Cons by (auto simp: jscalar_def split: option.splits)
    then show ?thesis by (rule scan_number_length)
  qed
qed

lemma jparse_total_rest:
  "\<exists>res. jparse m s = Some res \<and> (\<forall>v r. res = Inr (v, r) \<longrightarrow> length r < length s)"
proof (induction s arbitrary: m rule: length_induct)
  case (1 s)
  have IH: "\<exists>res. jparse m' t = Some res \<and> (\<forall>v r. res = Inr (v, r) \<longrightarrow> length r < length t)"
    if "length t < length s" for t m'
    using 1 that by blast
  have pv: "\<exists>res. jparse PValue s = Some res \<and> (\<forall>v r. res = Inr (v, r) \<longrightarrow> length r < length s)"
  proof (cases "skip_ws s")
    case Nil
    then show ?thesis by (simp add: jparse_PValue)
  next
    case (Cons c r)
    have lr: "length r < length s" using skip_ws_length [of s] Cons by simp
    obtain res1 where r1: "jparse (PMembers []) r = Some res1"
      and l1: "\<forall>v r'. res1 = Inr (v, r') \<longrightarrow> length r' < length r"
      using IH [OF lr] by blast
    obtain res2 where r2: "jparse (PElems []) r = Some res2"
      and l2: "\<forall>v r'. res2 = Inr (v, r') \<longrightarrow> length r' < length r"
      using IH [OF lr] by blast
    have wr: "length (skip_ws r) \<le> length r" by (rule skip_ws_length)
    have "length r' < length s" if "jscalar (c # r) = Inr (v, r')" for v r'
      using jscalar_length [OF that] lr by simp
    then show ?thesis
      using lr wr l1 l2 unfolding jparse_PValue Cons
      by (auto simp: r1 r2 split: list.splits)
  qed
  show ?case
  proof (cases m)
    case PValue
    then show ?thesis using pv by simp
  next
    case (PElems acc)
    obtain res where rv: "jparse PValue s = Some res"
      and lv: "\<forall>v r. res = Inr (v, r) \<longrightarrow> length r < length s"
      using pv by blast
    show ?thesis
    proof (cases res)
      case (Inl e)
      then show ?thesis using PElems rv by (simp add: jparse_PElems)
    next
      case (Inr vr)
      obtain v r where vr: "vr = (v, r)" by fastforce
      have lr: "length r < length s" using lv Inr vr by simp
      show ?thesis
      proof (cases "skip_ws r")
        case Nil
        then show ?thesis using PElems rv Inr vr by (simp add: jparse_PElems)
      next
        case (Cons d r')
        have lr': "length r' < length s" using skip_ws_length [of r] Cons lr by simp
        obtain res' where r3: "jparse (PElems (acc @ [v])) r' = Some res'"
          and l3: "\<forall>v r''. res' = Inr (v, r'') \<longrightarrow> length r'' < length r'"
          using IH [OF lr'] by blast
        show ?thesis using PElems rv Inr vr Cons r3 l3 lr' by (auto simp: jparse_PElems)
      qed
    qed
  next
    case (PMembers acc)
    show ?thesis
    proof (cases "\<exists>r k r1 r2. skip_ws s = CHR 0x22 # r \<and> json_unquote r = Some (k, r1) \<and> skip_ws r1 = CHR '':'' # r2")
      case False
      then show ?thesis using PMembers
        by (auto simp: jparse_PMembers split: list.splits option.splits)
    next
      case True
      then obtain r k r1 r2 where s1: "skip_ws s = CHR 0x22 # r" and k: "json_unquote r = Some (k, r1)"
        and s2: "skip_ws r1 = CHR '':'' # r2" by blast
      have lr2: "length r2 < length s"
        using skip_ws_length [of s] skip_ws_length [of r1] json_unquote_length [OF k] s1 s2 by simp
      obtain res where rv: "jparse PValue r2 = Some res"
        and lv: "\<forall>v r. res = Inr (v, r) \<longrightarrow> length r < length r2"
        using IH [OF lr2] by blast
      have unf: "jparse (PMembers acc) s =
          Option.bind (jparse PValue r2) (\<lambda>res.
            case res of
              Inl err \<Rightarrow> Some (Inl err)
            | Inr (v, r3) \<Rightarrow>
                (case skip_ws r3 of
                   f # r4 \<Rightarrow>
                     if f = CHR '','' then jparse (PMembers (acc @ [(k, v)])) r4
                     else if f = CHR ''}'' then Some (Inr (JObject (acc @ [(k, v)]), r4))
                     else Some (Inl SyntaxError)
                 | [] \<Rightarrow> Some (Inl SyntaxError)))"
        by (simp add: jparse_PMembers s1 k s2)
      show ?thesis
      proof (cases res)
        case (Inl e)
        then show ?thesis using PMembers rv unf by simp
      next
        case (Inr vr)
        obtain v r3 where vr: "vr = (v, r3)" by fastforce
        have lr3: "length r3 < length s" using lv Inr vr lr2 by simp
        show ?thesis
        proof (cases "skip_ws r3")
          case Nil
          then show ?thesis using PMembers rv Inr vr unf by simp
        next
          case (Cons f r4)
          have lr4: "length r4 < length s" using skip_ws_length [of r3] Cons lr3 by simp
          obtain res' where r5: "jparse (PMembers (acc @ [(k, v)])) r4 = Some res'"
            and l5: "\<forall>v r''. res' = Inr (v, r'') \<longrightarrow> length r'' < length r4"
            using IH [OF lr4] by blast
          show ?thesis using PMembers rv Inr vr unf Cons r5 l5 lr4 by auto
        qed
      qed
    qed
  qed
qed

subsection \<open>Strings\<close>

text \<open>
  Each piece \<open>appendString\<close> writes is one step of \<open>unquote\<close> that gives back
  the bytes it came from, or U+FFFD for a byte that starts no valid sequence:
  so \<open>unquote\<close> after the encoder is \<open>utf8_sanitize\<close>, the identity on valid UTF-8.
\<close>

lemma hex_val_hex_digit:
  assumes "n < 16"
  shows "hex_val (hex_digit n) = Some n"
proof -
  have "list_all (\<lambda>n. hex_val (hex_digit n) = Some n) [0..<16]"
    by (simp add: hex_digit_def hex_val_def upt_rec)
  then show ?thesis using assms by (simp add: list_all_iff)
qed

lemma encode_rune_replacement: "encode_rune rune_error = [CHR 0xEF, CHR 0xBF, CHR 0xBD]"
  by (simp add: encode_rune_def go_eval char_of_def bit_simps)

lemma hex_val_zero: "hex_val (CHR ''0'') = Some 0"
  by (simp add: hex_val_def)

lemma json_unquote_step:
  assumes "unquote_step (e @ x) = Some (out, length e)" and "e \<noteq> []" and "hd e \<noteq> CHR 0x22"
  shows "json_unquote (e @ x) = map_option (apfst ((@) out)) (json_unquote x)"
proof -
  obtain c es where e: "e = c # es" using assms(2) by (cases e) auto
  show ?thesis using assms e by simp
qed

lemma unquote_step_safe:
  "html_safe c \<Longrightarrow> unquote_step (c # x) = Some ([c], 1)"
  by (auto simp: unquote_step_def html_safe_def rune_self_def)

lemma unquote_step_escape:
  assumes "byte_val c < 0x80" and "\<not> html_safe c"
  shows "unquote_step (escape_ascii c @ x) = Some ([c], length (escape_ascii c))"
proof -
  consider (quote) "c = CHR 0x5C \<or> c = CHR 0x22"
    | (short) "c \<in> {CHR 0x08, CHR 0x0C, CHR 0x0A, CHR 0x0D, CHR 0x09}"
    | (u) "c \<noteq> CHR 0x5C" "c \<noteq> CHR 0x22" "c \<notin> {CHR 0x08, CHR 0x0C, CHR 0x0A, CHR 0x0D, CHR 0x09}"
    by blast
  then show ?thesis
  proof cases
    case quote
    then show ?thesis by (auto simp: escape_ascii_def unquote_step_def)
  next
    case short
    then show ?thesis by (auto simp: escape_ascii_def unquote_step_def)
  next
    case u
    define b where "b = byte_val c"
    have hex: "hex_val (hex_digit (b div 16)) = Some (b div 16)" "hex_val (hex_digit (b mod 16)) = Some (b mod 16)"
      using assms(1) by (simp_all add: hex_val_hex_digit b_def)
    have "get_u4 (escape_ascii c @ x) = Some b"
      using u hex by (simp add: escape_ascii_def hex_val_zero b_def)
    moreover have "\<not> is_surrogate b" and "encode_rune b = [c]"
      using assms(1) by (simp_all add: is_surrogate_def encode_rune_def b_def)
    ultimately show ?thesis using u by (simp add: escape_ascii_def unquote_step_def)
  qed
qed

lemma unquote_step_rune:
  assumes dec: "decode_rune (c # cs) = (r, n)" and ok: "\<not> (r = rune_error \<and> n = 1)"
    and hi: "\<not> byte_val c < rune_self"
  shows "unquote_step (take n (c # cs) @ x) = Some (take n (c # cs), n)"
proof -
  have w: "0 < n \<and> n \<le> Suc (length cs)" using decode_rune_width [OF dec] .
  obtain m where m: "n = Suc m" using w by (cases n) auto
  have eq: "take n (c # cs) @ x = c # (take (n - 1) cs @ x)" by (simp add: m)
  have "take (n - 1) (take (n - 1) cs @ x) = take (n - 1) cs" using w by (simp add: min_def)
  then have "decode_rune (take n (c # cs) @ x) = (r, n)"
    unfolding eq by (rule decode_rune_prefix_eq [OF dec ok])
  moreover have "c \<noteq> CHR 0x5C" "\<not> byte_val c < 0x20" using hi by (auto simp: rune_self_def)
  ultimately show ?thesis
    using hi encode_rune_decode_rune [OF dec ok] by (simp add: unquote_step_def eq)
qed

lemma unquote_step_line_sep:
  assumes dec: "decode_rune (c # cs) = (r, n)" and ok: "\<not> (r = rune_error \<and> n = 1)"
    and r: "r = 0x2028 \<or> r = 0x2029"
  shows "unquote_step ([CHR 0x5C, CHR ''u'', CHR ''2'', CHR ''0'', CHR ''2'', hex_digit (r mod 16)] @ x)
    = Some (take n (c # cs), length [CHR 0x5C, CHR ''u'', CHR ''2'', CHR ''0'', CHR ''2'', hex_digit (r mod 16)])"
proof -
  have "hex_val (hex_digit (r mod 16)) = Some (r mod 16)" by (simp add: hex_val_hex_digit)
  moreover have "hex_val (CHR ''2'') = Some 2" by (simp add: hex_val_def)
  ultimately have "get_u4 ([CHR 0x5C, CHR ''u'', CHR ''2'', CHR ''0'', CHR ''2'', hex_digit (r mod 16)] @ x) = Some r"
    using r by (auto simp: hex_val_zero)
  moreover have "\<not> is_surrogate r" using r by (auto simp: is_surrogate_def)
  ultimately show ?thesis using encode_rune_decode_rune [OF dec ok] by (simp add: unquote_step_def)
qed

lemma unquote_step_replacement_escape:
  "unquote_step ([CHR 0x5C, CHR ''u'', CHR ''f'', CHR ''f'', CHR ''f'', CHR ''d''] @ x) =
     Some (encode_rune 0xFFFD, length [CHR 0x5C, CHR ''u'', CHR ''f'', CHR ''f'', CHR ''f'', CHR ''d''])"
  by (simp add: unquote_step_def hex_val_def is_surrogate_def)

lemma utf8_sanitize_valid: "valid_utf8 s \<Longrightarrow> utf8_sanitize s = s"
proof (induction s rule: utf8_sanitize.induct)
  case (2 c cs)
  obtain r n where dec: "decode_rune (c # cs) = (r, n)" by fastforce
  have "\<not> (r = rune_error \<and> n = 1)" and "valid_utf8 (drop n (c # cs))"
    using valid_utf8_step [OF 2(2) dec] by simp_all
  then show ?case using 2(1) [OF dec [symmetric] refl] by (auto simp: dec simp del: decode_rune.simps)
qed simp

lemma utf8_sanitize_length: "length s \<le> length (utf8_sanitize s) \<and> (\<not> valid_utf8 s \<longrightarrow> length s < length (utf8_sanitize s))"
proof (induction s rule: utf8_sanitize.induct)
  case (2 c cs)
  obtain r n where dec: "decode_rune (c # cs) = (r, n)" by fastforce
  have w: "0 < n" "n \<le> Suc (length cs)" using decode_rune_width [OF dec] by simp_all
  have IH: "length (drop n (c # cs)) \<le> length (utf8_sanitize (drop n (c # cs))) \<and>
      (\<not> valid_utf8 (drop n (c # cs)) \<longrightarrow> length (drop n (c # cs)) < length (utf8_sanitize (drop n (c # cs))))"
    using 2(1) [OF dec [symmetric] refl] .
  have "length (c # cs) = n + length (drop n (c # cs))" using w by simp
  then show ?case using IH w by (auto simp: dec encode_rune_replacement min_def simp del: decode_rune.simps)
qed simp

lemma utf8_sanitize_id: "utf8_sanitize s = s \<longleftrightarrow> valid_utf8 s"
  using utf8_sanitize_valid utf8_sanitize_length [of s] by auto

lemma json_unquote_string_body_sanitize:
  "json_unquote (json_string_body s @ CHR 0x22 # rest) = Some (utf8_sanitize s, rest)"
proof (induction s rule: json_string_body.induct)
  case 1
  then show ?case by simp
next
  case (2 c cs)
  show ?case
  proof (cases "byte_val c < rune_self")
    case True
    let ?e = "if html_safe c then [c] else escape_ascii c"
    have st: "unquote_step (?e @ x) = Some ([c], length ?e)" for x
      using True unquote_step_safe [of c x] unquote_step_escape [of c x] by (simp add: rune_self_def)
    have ne: "?e \<noteq> []" "hd ?e \<noteq> CHR 0x22"
      by (auto simp: escape_ascii_def html_safe_def)
    have "json_unquote (?e @ (json_string_body cs @ CHR 0x22 # rest))
        = map_option (apfst ((@) [c])) (json_unquote (json_string_body cs @ CHR 0x22 # rest))"
      by (rule json_unquote_step [OF st ne])
    moreover have "utf8_sanitize (c # cs) = c # utf8_sanitize cs"
      using True by (simp add: rune_self_def rune_error_def)
    ultimately show ?thesis using 2(1) [OF True] True by simp
  next
    case False
    obtain r n where dec: "decode_rune (c # cs) = (r, n)" by fastforce
    have IH: "json_unquote (json_string_body (drop n (c # cs)) @ CHR 0x22 # rest)
        = Some (utf8_sanitize (drop n (c # cs)), rest)"
      using 2(2) [OF False dec [symmetric] refl] .
    have w: "0 < n" "n \<le> Suc (length cs)" using decode_rune_width [OF dec] by simp_all
    consider (err) "r = rune_error \<and> n = 1" | (sep) "\<not> (r = rune_error \<and> n = 1)" "r = 0x2028 \<or> r = 0x2029"
      | (rune) "\<not> (r = rune_error \<and> n = 1)" "\<not> (r = 0x2028 \<or> r = 0x2029)"
      by blast
    then show ?thesis
    proof cases
      case err
      let ?e = "[CHR 0x5C, CHR ''u'', CHR ''f'', CHR ''f'', CHR ''f'', CHR ''d'']"
      have "json_unquote (?e @ (json_string_body (drop n (c # cs)) @ CHR 0x22 # rest))
          = map_option (apfst ((@) (encode_rune rune_error))) (json_unquote (json_string_body (drop n (c # cs)) @ CHR 0x22 # rest))"
        by (rule json_unquote_step) (simp_all only: unquote_step_replacement_escape rune_error_def, simp_all)
      moreover have "json_string_body (c # cs) = ?e @ json_string_body (drop n (c # cs))"
        using False dec err by simp
      moreover have "utf8_sanitize (c # cs) = encode_rune rune_error @ utf8_sanitize (drop n (c # cs))"
        using err by (auto simp: dec simp del: decode_rune.simps)
      ultimately show ?thesis using IH by (simp del: json_unquote.simps)
    next
      case sep
      let ?e = "[CHR 0x5C, CHR ''u'', CHR ''2'', CHR ''0'', CHR ''2'', hex_digit (r mod 16)]"
      have "json_unquote (?e @ (json_string_body (drop n (c # cs)) @ CHR 0x22 # rest))
          = map_option (apfst ((@) (take n (c # cs)))) (json_unquote (json_string_body (drop n (c # cs)) @ CHR 0x22 # rest))"
        by (rule json_unquote_step) (simp_all only: unquote_step_line_sep [OF dec sep(1,2)], simp_all)
      moreover have "json_string_body (c # cs) = ?e @ json_string_body (drop n (c # cs))"
        using False dec sep by simp
      moreover have "utf8_sanitize (c # cs) = take n (c # cs) @ utf8_sanitize (drop n (c # cs))"
        using sep(1) by (auto simp: dec simp del: decode_rune.simps)
      ultimately show ?thesis using IH by (simp del: json_unquote.simps)
    next
      case rune
      have "json_unquote (take n (c # cs) @ (json_string_body (drop n (c # cs)) @ CHR 0x22 # rest))
          = map_option (apfst ((@) (take n (c # cs)))) (json_unquote (json_string_body (drop n (c # cs)) @ CHR 0x22 # rest))"
      proof (rule json_unquote_step)
        show "unquote_step (take n (c # cs) @ json_string_body (drop n (c # cs)) @ CHR 0x22 # rest)
            = Some (take n (c # cs), length (take n (c # cs)))"
          using unquote_step_rune [OF dec rune(1) False] w by simp
        show "take n (c # cs) \<noteq> []" using w by simp
        show "hd (take n (c # cs)) \<noteq> CHR 0x22" using w False by (cases n) (auto simp: rune_self_def)
      qed
      moreover have "json_string_body (c # cs) = take n (c # cs) @ json_string_body (drop n (c # cs))"
        using False dec rune by simp
      moreover have "utf8_sanitize (c # cs) = take n (c # cs) @ utf8_sanitize (drop n (c # cs))"
        using rune(1) by (auto simp: dec simp del: decode_rune.simps)
      ultimately show ?thesis using IH by (simp del: json_unquote.simps)
    qed
  qed
qed

lemma json_unquote_string_body:
  "valid_utf8 s \<Longrightarrow> json_unquote (json_string_body s @ CHR 0x22 # rest) = Some (s, rest)"
  using json_unquote_string_body_sanitize [of s rest] by (simp add: utf8_sanitize_valid)

subsection \<open>Numbers\<close>

text \<open>\<open>AppendInt\<close> writes digits without leading zeros that \<open>ParseInt\<close> reads back.\<close>

lemma of_char_digit: "d < 10 \<Longrightarrow> of_char (char_of (48 + d) :: char) = (48 + d :: nat)"
  by simp

lemma nat_dec_unfold:
  "nat_dec n = (if n < 10 then [char_of (0x30 + n)] else nat_dec (n div 10) @ [char_of (0x30 + n mod 10)])"
  by (rule nat_dec.simps)

lemma nat_dec_digits: "nat_dec n \<noteq> [] \<and> list_all is_digit (nat_dec n)"
proof (induction n rule: nat_dec.induct)
  case (1 n)
  have "is_digit (char_of (48 + n mod 10))" by (simp add: is_digit_def of_char_digit)
  moreover have "n < 10 \<Longrightarrow> is_digit (char_of (48 + n))" by (simp add: is_digit_def of_char_digit)
  ultimately show ?case using 1 unfolding nat_dec_unfold [of n] by auto
qed

lemma digits_value_snoc: "digits_value a (cs @ [c]) = 10 * digits_value a cs + (byte_val c - 0x30)"
  by (simp add: digits_value_def)

lemma digits_value_nat_dec: "digits_value 0 (nat_dec n) = n"
proof (induction n rule: nat_dec.induct)
  case (1 n)
  then show ?case unfolding nat_dec_unfold [of n] by (simp add: digits_value_snoc of_char_digit)
qed

lemma nat_dec_lead: "0 < n \<Longrightarrow> hd (nat_dec n) \<noteq> CHR ''0''"
proof (induction n rule: nat_dec.induct)
  case (1 n)
  show ?case
  proof (cases "n < 10")
    case True
    have "of_char (char_of (48 + n) :: char) \<noteq> (of_char (CHR ''0'') :: nat)"
      using True 1(2) by (simp add: of_char_digit)
    then have "char_of (48 + n) \<noteq> CHR ''0''" by metis
    then show ?thesis using True unfolding nat_dec_unfold [of n] by simp
  next
    case False
    then have "hd (nat_dec (n div 10)) \<noteq> CHR ''0''" using 1 by simp
    then show ?thesis using False nat_dec_digits [of "n div 10"] unfolding nat_dec_unfold [of n] by simp
  qed
qed

lemma nat_dec_zero: "nat_dec 0 = ''0''"
proof -
  have a: "(of_char (CHR ''0'') :: nat) = 48" by simp
  have "char_of (of_char (CHR ''0'') :: nat) = CHR ''0''" by (rule char_of_char)
  then have "char_of (48::nat) = CHR ''0''" by (simp only: a)
  then show ?thesis unfolding nat_dec_unfold [of 0] by simp
qed

lemma dec_int_nat_dec: "dec_int (nat_dec m) = Some (int m) \<and> dec_int (CHR ''-'' # nat_dec m) = Some (- int m)"
proof -
  obtain c cs where cs: "nat_dec m = c # cs" using nat_dec_digits [of m] by (cases "nat_dec m") auto
  have "is_digit c" "list_all is_digit cs" using nat_dec_digits [of m] cs by simp_all
  then have "c \<noteq> CHR ''+''" "c \<noteq> CHR ''-''" by (auto simp: is_digit_def)
  then show ?thesis using nat_dec_digits [of m] digits_value_nat_dec [of m] cs
    by (simp add: dec_int_def)
qed

lemma dec_int_int_dec: "dec_int (int_dec x) = Some x"
  using dec_int_nat_dec [of "nat x"] dec_int_nat_dec [of "nat (- x)"] by (simp add: int_dec_def)

lemma skip_ws_nonws: "c \<notin> {CHR '' '', CHR 0x09, CHR 0x0A, CHR 0x0D} \<Longrightarrow> skip_ws (c # s) = c # s"
  by simp

lemma scan_digits_int_dec:
  assumes "\<not> is_digit d"
  shows "scan_digits (nat_dec m @ d # rest) = (nat_dec m, d # rest)"
  using nat_dec_digits [of m] assms
  by (simp add: scan_digits_def takeWhile_append2 dropWhile_append2 list_all_iff)

lemma scan_number_int_dec:
  assumes "\<not> is_digit d" and "d \<noteq> CHR ''.''" and "d \<noteq> CHR ''e''" and "d \<noteq> CHR ''E''"
  shows "scan_number (int_dec x @ d # rest) = Some (int_dec x, d # rest)"
proof -
  have tail: "scan_frac (d # rest) = Some ([], d # rest)" "scan_exp (d # rest) = Some ([], d # rest)"
    using assms by (simp_all add: scan_frac_def scan_exp_def)
  have nn: "scan_unsigned (nat_dec m @ d # rest) = Some (nat_dec m, d # rest)" for m
  proof (cases "m = 0")
    case True
    then show ?thesis using tail by (simp add: scan_unsigned_def nat_dec_zero is_digit_def)
  next
    case False
    obtain c cs where cs: "nat_dec m = c # cs" using nat_dec_digits [of m] by (cases "nat_dec m") auto
    have "is_digit c" "c \<noteq> CHR ''0''"
      using nat_dec_digits [of m] nat_dec_lead [of m] False cs by auto
    then show ?thesis using tail scan_digits_int_dec [OF assms(1), of m] cs
      by (simp add: scan_unsigned_def)
  qed
  have nm: "hd (nat_dec m @ d # rest) \<noteq> CHR ''-''" for m
    using nat_dec_digits [of m] by (cases "nat_dec m") (auto simp: is_digit_def)
  show ?thesis
  proof (cases "x < 0")
    case True
    then show ?thesis using nn [of "nat (- x)"] by (simp add: int_dec_def scan_number_def)
  next
    case False
    then show ?thesis using nn [of "nat x"] nm [of "nat x"]
      by (cases "nat_dec (nat x) @ d # rest") (auto simp: int_dec_def scan_number_def)
  qed
qed

subsection \<open>Escaping\<close>

lemma hex_digit_safe:
  assumes "n < 16"
  shows "0x20 \<le> byte_val (hex_digit n) \<and> hex_digit n \<notin> {CHR ''<'', CHR ''>'', CHR ''&''}"
proof -
  have "list_all (\<lambda>n. 0x20 \<le> byte_val (hex_digit n) \<and> hex_digit n \<notin> {CHR ''<'', CHR ''>'', CHR ''&''}) [0..<16]"
    by (simp add: hex_digit_def upt_rec)
  then show ?thesis using assms by (simp add: list_all_iff)
qed

lemma escape_ascii_safe:
  "byte_val c < 0x80 \<Longrightarrow> list_all (\<lambda>b. 0x20 \<le> byte_val b \<and> b \<notin> {CHR ''<'', CHR ''>'', CHR ''&''}) (escape_ascii c)"
  using hex_digit_safe [of "byte_val c div 16"] hex_digit_safe [of "byte_val c mod 16"]
  by (auto simp: escape_ascii_def)

lemma json_string_body_safe: "embed_safe (json_string_body s)"
  unfolding embed_safe_def
proof (induction s rule: json_string_body.induct)
  case 1
  then show ?case by simp
next
  case (2 c cs)
  show ?case
  proof (cases "byte_val c < rune_self")
    case True
    then show ?thesis using 2(1) escape_ascii_safe [of c]
      by (auto simp: html_safe_def rune_self_def)
  next
    case False
    obtain r n where dec: "decode_rune (c # cs) = (r, n)" by fastforce
    have tail: "list_all (\<lambda>b. 0x20 \<le> byte_val b \<and> b \<notin> {CHR ''<'', CHR ''>'', CHR ''&''})
        (json_string_body (drop n (c # cs)))"
      using 2(2) [OF False dec [symmetric] refl] .
    have "r = rune_error \<and> n = 1 \<or> r = 0x2028 \<or> r = 0x2029 \<or>
        list_all (\<lambda>b. 0x80 \<le> byte_val b) (take n (c # cs))"
      using decode_rune_bytes_high [OF dec _ False] by blast
    moreover have "json_string_body (c # cs) =
        (if r = rune_error \<and> n = 1 then [CHR 0x5C, CHR ''u'', CHR ''f'', CHR ''f'', CHR ''f'', CHR ''d'']
         else if r = 0x2028 \<or> r = 0x2029 then [CHR 0x5C, CHR ''u'', CHR ''2'', CHR ''0'', CHR ''2'', hex_digit (r mod 16)]
         else take n (c # cs)) @ json_string_body (drop n (c # cs))"
      using False dec by simp
    moreover have "list_all (\<lambda>b. 0x20 \<le> byte_val b \<and> b \<notin> {CHR ''<'', CHR ''>'', CHR ''&''}) xs"
      if "list_all (\<lambda>b. 0x80 \<le> byte_val b) xs" for xs
      using that by (auto simp: list_all_iff)
    ultimately show ?thesis using tail hex_digit_safe [of "r mod 16"] by (auto simp del: json_string_body.simps)
  qed
qed

lemma embed_safe_simps [simp]:
  "embed_safe []"
  "embed_safe (c # s) \<longleftrightarrow> 0x20 \<le> byte_val c \<and> c \<notin> {CHR ''<'', CHR ''>'', CHR ''&''} \<and> embed_safe s"
  "embed_safe (s @ t) \<longleftrightarrow> embed_safe s \<and> embed_safe t"
  by (simp_all add: embed_safe_def)

lemma json_quote_safe: "embed_safe (json_quote s)"
  using json_string_body_safe [of s] by (simp add: json_quote_def)

lemma int_dec_safe: "embed_safe (int_dec i)"
proof -
  have "embed_safe (nat_dec n)" for n
    using nat_dec_digits [of n] by (auto simp: embed_safe_def list_all_iff is_digit_def)
  then show ?thesis by (simp add: int_dec_def)
qed

lemma json_value_safe: "json_value v = Inr b \<Longrightarrow> embed_safe b"
  by (cases v) (auto simp: json_quote_safe int_dec_safe)

lemma comma_join_safe: "list_all embed_safe bs \<Longrightarrow> embed_safe (comma_join bs)"
  by (induction bs rule: comma_join.induct) auto

lemma json_members_safe: "json_members c = Inr bs \<Longrightarrow> list_all embed_safe bs"
proof (induction c arbitrary: bs)
  case (Cons nv c)
  then show ?case
    by (cases nv; cases "json_value (snd nv)"; cases "json_members c")
      (auto simp: json_quote_safe dest: json_value_safe)
qed simp

lemma json_object_safe: "json_object c = Inr b \<Longrightarrow> embed_safe b"
  by (cases "json_members c") (auto simp: json_object_def comma_join_safe dest: json_members_safe)

lemma json_objects_safe: "json_objects cs = Inr bs \<Longrightarrow> list_all embed_safe bs"
proof (induction cs arbitrary: bs)
  case (Cons c cs)
  then show ?case
    by (cases "json_object c"; cases "json_objects cs") (auto dest: json_object_safe)
qed simp

section \<open>Main properties of the JSON model\<close>

text \<open>
  C23: the JSON text \<open>doConvert\<close> writes is safe to embed in HTML: when
  \<open>json.Marshal\<close> succeeds, no byte of its output is below 0x20, a less-than or
  greater-than sign or an ampersand, whatever bytes the records' strings and
  field names hold, valid UTF-8 or not (each is written as an escape).
\<close>

theorem json_output_html_safe:
  "json_marshal cs = Inr j \<Longrightarrow> embed_safe j"
  by (cases "json_objects cs") (auto simp: json_marshal_def comma_join_safe dest: json_objects_safe)

subsection \<open>Witnesses\<close>

theorem json_output_html_safe_witness:
  "json_marshal [[(''Denominazione'', GoString ''a<b'')]] =
     Inr (''[{'' @ [CHR 0x22] @ ''denominazione'' @ [CHR 0x22, CHR '':'', CHR 0x22] @ ''a'' @ [CHR 0x5C] @ ''u003cb''
          @ [CHR 0x22] @ ''}]'') \<and>
   embed_safe (''[{'' @ [CHR 0x22] @ ''denominazione'' @ [CHR 0x22, CHR '':'', CHR 0x22] @ ''a'' @ [CHR 0x5C] @ ''u003cb''
          @ [CHR 0x22] @ ''}]'')"
proof -
  have m: "json_marshal [[(''Denominazione'', GoString ''a<b'')]] =
     Inr (''[{'' @ [CHR 0x22] @ ''denominazione'' @ [CHR 0x22, CHR '':'', CHR 0x22] @ ''a'' @ [CHR 0x5C] @ ''u003cb''
          @ [CHR 0x22] @ ''}]'')"
    by (simp add: json_marshal_def json_object_def json_quote_def go_eval hex_digit_def html_safe_def
        escape_ascii_def json_key_def comune_json_tags_def)
  show ?thesis using m json_output_html_safe [OF m] by simp
qed

end
