(* ===== verification/Cli.thy ===== *)
theory Cli
  imports Pipeline Json
begin

text \<open>
  The command line of \<open>src/cmd/go-comuni/main.go\<close>: \<open>main\<close> (lines 320--349)
  dispatches on the subcommand, parses its flags with a \<open>flag.FlagSet\<close> created
  with \<open>flag.ExitOnError\<close>, and calls \<open>handleCmdConvert\<close> (lines 267--294) or
  \<open>handleCmdDownload\<close> (lines 296--318).  The \<open>flag\<close> package is library code,
  modelled from its documentation and implementation (\<open>FlagSet.parseOne\<close>) for
  the two kinds of flag the program defines, bool and string.  The network and
  the file system are an explicit world: what fetching a URL, opening a file and
  creating a file return.  The outcome of a run is the \<open>log.Fatalf\<close> or
  \<open>os.Exit\<close> that ends it, the failure inside \<open>doConvert\<close>, or the file it writes.
\<close>

section \<open>Package flag\<close>

datatype flag_value = BoolFlag bool | StringFlag string

text \<open>The flags of a set with their current values, in definition order.\<close>

type_synonym flag_set = "(string \<times> flag_value) list"

datatype flag_error =
    ErrHelp
  | BadFlagSyntax string
  | FlagNotDefined string
  | InvalidBoolValue string string
  | FlagNeedsArgument string

definition set_flag :: "string \<Rightarrow> flag_value \<Rightarrow> flag_set \<Rightarrow> flag_set" where
  "set_flag name v fs = map (\<lambda>(n, x). if n = name then (n, v) else (n, x)) fs"

text \<open>\<open>name=value\<close> split at the first \<open>=\<close>: the name, whether there is a value, the value.\<close>

definition split_flag :: "string \<Rightarrow> string \<times> bool \<times> string" where
  "split_flag name =
     (let n = takeWhile (\<lambda>c. c \<noteq> CHR ''='') name in
      if length n = length name then (name, False, [])
      else (n, True, drop (Suc (length n)) name))"

text \<open>
  \<open>FlagSet.Parse\<close>: \<open>parseOne\<close> until it sees no flag.  Parsing stops at the first
  argument that is not a flag (or at \<open>--\<close>, which it consumes); a bool flag
  takes \<open>=value\<close> only, a string flag \<open>=value\<close> or the next argument.  The result
  is the flags' values and \<open>FlagSet.Args()\<close>.
\<close>

fun parse_flags :: "flag_set \<Rightarrow> string list \<Rightarrow> flag_error + flag_set \<times> string list" where
  "parse_flags fs [] = Inr (fs, [])"
| "parse_flags fs (s # args) =
     (if length s < 2 \<or> hd s \<noteq> CHR ''-'' then Inr (fs, s # args)
      else if s = ''--'' then Inr (fs, args)
      else
        let name0 = drop (if s ! 1 = CHR ''-'' then 2 else 1) s in
        if name0 = [] \<or> hd name0 = CHR ''-'' \<or> hd name0 = CHR ''='' then Inl (BadFlagSyntax s)
        else
          (case split_flag name0 of (name, has_value, value) \<Rightarrow>
            (case map_of fs name of
               None \<Rightarrow> if name = ''help'' \<or> name = ''h'' then Inl ErrHelp else Inl (FlagNotDefined name)
             | Some (BoolFlag _) \<Rightarrow>
                 if has_value then
                   (case parse_bool value of
                      Inl _ \<Rightarrow> Inl (InvalidBoolValue value name)
                    | Inr b \<Rightarrow> parse_flags (set_flag name (BoolFlag b) fs) args)
                 else parse_flags (set_flag name (BoolFlag True) fs) args
             | Some (StringFlag _) \<Rightarrow>
                 if has_value then parse_flags (set_flag name (StringFlag value) fs) args
                 else
                   (case args of
                      [] \<Rightarrow> Inl (FlagNeedsArgument name)
                    | v # args' \<Rightarrow> parse_flags (set_flag name (StringFlag v) fs) args'))))"

definition bool_flag :: "flag_set \<Rightarrow> string \<Rightarrow> bool" where
  "bool_flag fs name = (case map_of fs name of Some (BoolFlag b) \<Rightarrow> b | _ \<Rightarrow> False)"

definition string_flag :: "flag_set \<Rightarrow> string \<Rightarrow> string" where
  "string_flag fs name = (case map_of fs name of Some (StringFlag s) \<Rightarrow> s | _ \<Rightarrow> [])"

text \<open>\<open>strings.HasPrefix\<close>.\<close>

definition has_prefix :: "bytes \<Rightarrow> bytes \<Rightarrow> bool" where
  "has_prefix s p \<longleftrightarrow> take (length p) s = p"

section \<open>The program\<close>

definition codici_istat_comuni_csv_url :: string where
  "codici_istat_comuni_csv_url =
     ''https://www.istat.it/storage/codici-unita-amministrative/Elenco-comuni-italiani.csv''"

text \<open>The flag sets of the two subcommands (lines 321--329).\<close>

definition convert_flags :: flag_set where
  "convert_flags = [(''allow-insecure'', BoolFlag False),
     (''source'', StringFlag codici_istat_comuni_csv_url), (''output'', StringFlag ''comuni.json'')]"

definition download_flags :: flag_set where
  "download_flags = [(''allow-insecure'', BoolFlag False),
     (''source'', StringFlag codici_istat_comuni_csv_url), (''output'', StringFlag ''comuni.csv'')]"

text \<open>
  The world: the body of a GET (with TLS verification off when the flag says
  so) or its error, the contents of a file or the error of opening it, and the
  errors of creating the output file and of writing bytes to it, if any.  The detector and the iteration
  orders of \<open>parseStructTags\<close> are those of the run.
\<close>

record world =
  http_get :: "string \<Rightarrow> bool \<Rightarrow> string + bytes"
  read_file :: "string \<Rightarrow> string + bytes"
  create_file :: "string \<Rightarrow> string option"
  write_file :: "string \<Rightarrow> bytes \<Rightarrow> string option"
  detector :: detector
  map_order0 :: map_order
  map_orders :: "nat \<Rightarrow> map_order"

datatype fatal_message =
    ExpectedSubcommand
  | ExpectedConvertOrDownload
  | CantFetch string
  | CantOpen string
  | CantProcess string
  | CantCreateOutput string
  | CantWriteRemote string

datatype outcome =
    LogFatal fatal_message
  | OsExit nat
  | ConvertAborted convert_error
  | WroteJson string bytes
  | WroteDownload string bytes

text \<open>
  \<open>doConvert(source, output)\<close> with its I/O: a failure before the records are
  encoded ends the run inside \<open>doConvert\<close>; the errors of \<open>json.Marshal\<close>,
  \<open>os.Create\<close> and \<open>Write\<close> are returned and reported by the caller as
  \<open>can't process\<close>; otherwise the JSON text is in the output file.
\<close>

definition run_convert :: "world \<Rightarrow> string \<Rightarrow> bytes \<Rightarrow> string \<Rightarrow> outcome" where
  "run_convert w source data output =
     (case do_convert (detector w) comune_struct (map_order0 w) (map_orders w) data of
        Inl e \<Rightarrow> ConvertAborted e
      | Inr comuni_list \<Rightarrow>
          (case json_marshal comuni_list of
             Inl _ \<Rightarrow> LogFatal (CantProcess source)
           | Inr json \<Rightarrow>
               (case create_file w output of
                  Some _ \<Rightarrow> LogFatal (CantProcess source)
                | None \<Rightarrow>
                    (case write_file w output json of
                       Some _ \<Rightarrow> LogFatal (CantProcess source)
                     | None \<Rightarrow> WroteJson output json))))"

definition handle_cmd_convert :: "world \<Rightarrow> string \<Rightarrow> string \<Rightarrow> bool \<Rightarrow> string list \<Rightarrow> outcome" where
  "handle_cmd_convert w source output allow_insecure args =
     (if has_prefix source ''https://'' \<or> has_prefix source ''http://'' then
        (case http_get w source allow_insecure of
           Inl _ \<Rightarrow> LogFatal (CantFetch source)
         | Inr body \<Rightarrow> run_convert w source body output)
      else
        (case read_file w source of
           Inl _ \<Rightarrow> LogFatal (CantOpen source)
         | Inr data \<Rightarrow> run_convert w source data output))"

definition handle_cmd_download :: "world \<Rightarrow> string \<Rightarrow> string \<Rightarrow> bool \<Rightarrow> string list \<Rightarrow> outcome" where
  "handle_cmd_download w source output allow_insecure args =
     (case http_get w source allow_insecure of
        Inl _ \<Rightarrow> LogFatal (CantFetch source)
      | Inr body \<Rightarrow>
          (case create_file w output of
             Some _ \<Rightarrow> LogFatal (CantCreateOutput output)
           | None \<Rightarrow>
               (case write_file w output body of
                  Some _ \<Rightarrow> LogFatal (CantWriteRemote output)
                | None \<Rightarrow> WroteDownload output body)))"

text \<open>
  \<open>main\<close> for \<open>os.Args\<close>.  With \<open>flag.ExitOnError\<close> a parse error exits inside
  \<open>Parse\<close> (status 0 for \<open>-h\<close>, 2 otherwise), so the \<open>log.Fatalf\<close> after it is
  never reached.  The download case passes \<open>convertCmd.Args()\<close>, the arguments of
  the convert set, which is not parsed on that path and so holds none.
\<close>

definition go_main :: "world \<Rightarrow> string list \<Rightarrow> outcome" where
  "go_main w os_args =
     (if length os_args < 2 then LogFatal ExpectedSubcommand
      else if os_args ! 1 = ''convert'' then
        (case parse_flags convert_flags (drop 2 os_args) of
           Inl e \<Rightarrow> OsExit (if e = ErrHelp then 0 else 2)
         | Inr (fs, args) \<Rightarrow>
             handle_cmd_convert w (string_flag fs ''source'') (string_flag fs ''output'')
               (bool_flag fs ''allow-insecure'') args)
      else if os_args ! 1 = ''download'' then
        (case parse_flags download_flags (drop 2 os_args) of
           Inl e \<Rightarrow> OsExit (if e = ErrHelp then 0 else 2)
         | Inr (fs, args) \<Rightarrow>
             handle_cmd_download w (string_flag fs ''source'') (string_flag fs ''output'')
               (bool_flag fs ''allow-insecure'') [])
      else LogFatal ExpectedConvertOrDownload)"

section \<open>Properties\<close>

lemmas cli_eval = go_main_def convert_flags_def download_flags_def split_flag_def set_flag_def
  string_flag_def bool_flag_def parse_bool_def

subsection \<open>One flag\<close>

lemma split_flag_plain: "CHR ''='' \<notin> set n \<Longrightarrow> split_flag n = (n, False, [])"
proof -
  assume "CHR ''='' \<notin> set n"
  then have eq: "takeWhile (\<lambda>c. c \<noteq> CHR ''='') n = n" by (auto simp: takeWhile_eq_all_conv)
  show ?thesis unfolding split_flag_def Let_def eq by simp
qed

lemma split_flag_value: "CHR ''='' \<notin> set n \<Longrightarrow> split_flag (n @ CHR ''='' # v) = (n, True, v)"
proof -
  assume "CHR ''='' \<notin> set n"
  then have eq: "takeWhile (\<lambda>c. c \<noteq> CHR ''='') (n @ CHR ''='' # v) = n"
    by (subst takeWhile_append2) auto
  show ?thesis unfolding split_flag_def Let_def eq by simp
qed

lemma parse_flags_dashes:
  assumes "n \<noteq> []" and "hd n \<noteq> CHR ''-''" and "hd n \<noteq> CHR ''=''" and "d \<in> {''-'', ''--''}"
  shows "parse_flags fs ((d @ n) # args) =
    (case split_flag n of (name, has_value, value) \<Rightarrow>
            (case map_of fs name of
               None \<Rightarrow> if name = ''help'' \<or> name = ''h'' then Inl ErrHelp else Inl (FlagNotDefined name)
             | Some (BoolFlag _) \<Rightarrow>
                 if has_value then
                   (case parse_bool value of
                      Inl _ \<Rightarrow> Inl (InvalidBoolValue value name)
                    | Inr b \<Rightarrow> parse_flags (set_flag name (BoolFlag b) fs) args)
                 else parse_flags (set_flag name (BoolFlag True) fs) args
             | Some (StringFlag _) \<Rightarrow>
                 if has_value then parse_flags (set_flag name (StringFlag value) fs) args
                 else
                   (case args of
                      [] \<Rightarrow> Inl (FlagNeedsArgument name)
                    | v # args' \<Rightarrow> parse_flags (set_flag name (StringFlag v) fs) args')))"
proof -
  obtain c cs where n: "n = c # cs" using assms(1) by (cases n) auto
  show ?thesis using assms(2-4) unfolding n by (auto simp del: split_flag_def)
qed

lemma parse_flags_operand:
  "args = [] \<or> length (hd args) < 2 \<or> hd (hd args) \<noteq> CHR ''-'' \<Longrightarrow> parse_flags fs args = Inr (fs, args)"
  by (cases args) auto

text \<open>
  How \<open>FlagSet.Parse\<close> reads one flag, for every flag set: a bool flag never
  consumes the next argument, a string flag takes \<open>=value\<close> or else the next
  argument whatever it is.
\<close>

lemma parse_flags_one_flag:
  assumes "n \<noteq> []" and "hd n \<noteq> CHR ''-''" and "CHR ''='' \<notin> set n" and "d \<in> {''-'', ''--''}"
  shows "(map_of fs n = Some (BoolFlag bv) \<longrightarrow>
       parse_flags fs ((d @ n) # args) = parse_flags (set_flag n (BoolFlag True) fs) args \<and>
       parse_flags fs ((d @ n @ ''=false'') # args) = parse_flags (set_flag n (BoolFlag False) fs) args) \<and>
    (map_of fs n = Some (StringFlag sv) \<longrightarrow>
       parse_flags fs ((d @ n) # v # args) = parse_flags (set_flag n (StringFlag v) fs) args \<and>
       parse_flags fs ((d @ n @ CHR ''='' # v) # args) = parse_flags (set_flag n (StringFlag v) fs) args \<and>
       parse_flags fs [d @ n] = Inl (FlagNeedsArgument n))"
proof -
  have h: "hd n \<noteq> CHR ''=''" using assms(1,3) by (cases n) auto
  have a: "n @ x \<noteq> []" "hd (n @ x) \<noteq> CHR ''-''" "hd (n @ x) \<noteq> CHR ''=''" for x
    using assms(1,2) h by simp_all
  note p = parse_flags_dashes [OF assms(1,2) h assms(4)]
  note pf = parse_flags_dashes [where n = "n @ ''=false''", OF a [of "''=false''"] assms(4)]
  note pv = parse_flags_dashes [where n = "n @ CHR ''='' # v", OF a [of "CHR ''='' # v"] assms(4)]
  show ?thesis
    using p pf pv
      split_flag_plain [OF assms(3)] split_flag_value [OF assms(3)]
    by (simp add: parse_bool_def)
qed

subsection \<open>Main properties of the command line\<close>

text \<open>
  C19: the subcommand dispatch of \<open>main\<close> and its flags, for every world,
  program name, source, output and list of operands that does not start with
  a flag: \<open>convert\<close> without flags converts the ISTAT URL to \<open>comuni.json\<close>;
  \<open>-allow-insecure\<close> takes no value, \<open>-source\<close> and \<open>--output\<close> take the next
  argument whatever it is (also one that starts with a dash), \<open>-output=\<close> its
  value, \<open>--allow-insecure=false\<close> resets the bool flag, and the operands
  are passed on as \<open>Args()\<close>; \<open>download\<close> gets the convert set's \<open>Args()\<close>,
  which is empty, whatever operands follow; a string flag without its value
  exits with status 2 and \<open>-h\<close> with status 0; a missing or unknown
  subcommand ends in \<open>log.Fatalf\<close>.
\<close>

theorem main_dispatch:
  assumes "rest = [] \<or> length (hd rest) < 2 \<or> hd (hd rest) \<noteq> CHR ''-''"
  shows "go_main w (p # ''convert'' # rest) = handle_cmd_convert w codici_istat_comuni_csv_url ''comuni.json'' False rest \<and>
    go_main w (p # ''convert'' # ''-allow-insecure'' # ''-source'' # s # ''--output'' # out # rest) =
      handle_cmd_convert w s out True rest \<and>
    go_main w (p # ''convert'' # (''-output='' @ out) # ''--allow-insecure=false'' # rest) =
      handle_cmd_convert w codici_istat_comuni_csv_url out False rest \<and>
    go_main w (p # ''download'' # ''-source'' # s # ''-output'' # out # rest) = handle_cmd_download w s out False [] \<and>
    go_main w [p, ''convert'', ''-source''] = OsExit 2 \<and>
    go_main w [p, ''download'', ''-h''] = OsExit 0 \<and>
    go_main w [p] = LogFatal ExpectedSubcommand \<and>
    (c \<noteq> ''convert'' \<longrightarrow> c \<noteq> ''download'' \<longrightarrow> go_main w (p # c # args) = LogFatal ExpectedConvertOrDownload)"
  using parse_flags_operand [OF assms]
  by (simp add: cli_eval string_flag_def bool_flag_def)

text \<open>
  C20: the command line meets the encoding detection: \<open>convert -source\<close> with a
  local file of fewer than 1024 bytes always aborts in \<open>doConvert\<close> with the
  panic of the encoding detection
\<close>

theorem small_local_file_aborts:
  assumes "\<not> has_prefix src ''https://''" and "\<not> has_prefix src ''http://''"
    and "read_file w src = Inr data" and "length data < 1024"
  shows "go_main w [p, ''convert'', ''-source'', src] = ConvertAborted (EncodingPanic ErrEOF)"
  using assms
  by (simp add: cli_eval handle_cmd_convert_def run_convert_def do_convert_def determine_encoding_short)

subsection \<open>Witnesses\<close>

theorem main_dispatch_witness:
  "go_main \<lparr>http_get = \<lambda>u i. Inl ''offline'', read_file = \<lambda>f. Inr (''A;B'' @ [CHR 0x0A]),
      create_file = \<lambda>f. None, write_file = \<lambda>f b. None, detector = \<lambda>b. (\<lambda>x. x, ''utf-8'', True), map_order0 = [], map_orders = \<lambda>k. []\<rparr>
     [''go-comuni'', ''download'', ''-source'', ''http://x'', ''-output'', ''o.csv'', ''extra'']
   = handle_cmd_download \<lparr>http_get = \<lambda>u i. Inl ''offline'', read_file = \<lambda>f. Inr (''A;B'' @ [CHR 0x0A]),
      create_file = \<lambda>f. None, write_file = \<lambda>f b. None, detector = \<lambda>b. (\<lambda>x. x, ''utf-8'', True), map_order0 = [], map_orders = \<lambda>k. []\<rparr>
     ''http://x'' ''o.csv'' False []"
  using main_dispatch [of "[''extra'']" _ "''go-comuni''" "''http://x''" "''o.csv''"] by simp

theorem small_local_file_aborts_witness:
  "go_main \<lparr>http_get = \<lambda>u i. Inl ''offline'', read_file = \<lambda>f. Inr (''A;B'' @ [CHR 0x0A]),
      create_file = \<lambda>f. None, write_file = \<lambda>f b. None, detector = \<lambda>b. (\<lambda>x. x, ''utf-8'', True), map_order0 = [], map_orders = \<lambda>k. []\<rparr>
     [''go-comuni'', ''convert'', ''-source'', ''comuni.csv''] = ConvertAborted (EncodingPanic ErrEOF)"
  by (rule small_local_file_aborts [where data = "''A;B'' @ [CHR 0x0A]"]) (simp_all add: has_prefix_def)

end
