(* ===== verification/ConvertRun.thy ===== *)
theory ConvertRun
  imports Cli
begin

text \<open>
  \<open>doConvert\<close> as a run of steps with its effect on the file system
  (\<open>src/cmd/go-comuni/main.go\<close>, lines 172--265).  A conversion passes
  through the phases the code passes through in order: the bytes of the source
  (\<open>allData\<close>), the decoded text, the row loop with the rows still to convert
  and \<open>comuniList\<close>, the encoded JSON text, the created output file, and the
  end of the run.  The state is the phase and the files; \<open>os.Create\<close> truncates
  the output file and \<open>Write\<close> may fail after writing part of the text, so the
  step relation is nondeterministic in how much of it is written.  The
  invariant \<open>conv_inv\<close> ties every reachable state to the functional model
  \<open>run_convert\<close>, and the lemmas show what the output file may hold along
  the way.
\<close>

datatype conv_phase =
    Acquired bytes
  | Decoded bytes
  | Materializing csv_fields "string list list" "go_object list"
  | Marshalled bytes
  | Created bytes
  | Finished outcome

type_synonym file_store = "string \<Rightarrow> bytes option"

record conv_state =
  phase :: conv_phase
  files :: file_store

definition conv_init :: "bytes \<Rightarrow> file_store \<Rightarrow> conv_state" where
  "conv_init data fs = \<lparr>phase = Acquired data, files = fs\<rparr>"

text \<open>
  One step of \<open>doConvert(source, out_name)\<close> in the world \<open>w\<close>: the encoding
  detection and its \<open>panic\<close> (lines 178--182), the CSV read and its \<open>log.Fatal\<close>
  and \<open>records[0]\<close> (188--198), \<open>parseStructTags\<close> (200), one row of the row
  loop (203--246), \<open>json.Marshal\<close> (248--251), \<open>os.Create\<close> (253--256) and
  \<open>Write\<close> (258--261).  A write that fails leaves the first \<open>k\<close> bytes of the
  text in the file, for some \<open>k\<close>.
\<close>

inductive conv_step :: "world \<Rightarrow> string \<Rightarrow> string \<Rightarrow> conv_state \<Rightarrow> conv_state \<Rightarrow> bool"
  for w :: world and source :: string and out_name :: string where
  detect_fail: "determine_encoding_from_reader (detector w) data = Inl err \<Longrightarrow>
    conv_step w source out_name \<lparr>phase = Acquired data, files = fs\<rparr>
      \<lparr>phase = Finished (ConvertAborted (EncodingPanic err)), files = fs\<rparr>"
| detect_ok: "determine_encoding_from_reader (detector w) data = Inr (dec, name, certain) \<Longrightarrow>
    conv_step w source out_name \<lparr>phase = Acquired data, files = fs\<rparr> \<lparr>phase = Decoded (dec data), files = fs\<rparr>"
| read_fail: "csv_read_all text = Inl e \<Longrightarrow>
    conv_step w source out_name \<lparr>phase = Decoded text, files = fs\<rparr>
      \<lparr>phase = Finished (ConvertAborted (CsvFatal e)), files = fs\<rparr>"
| read_empty: "csv_read_all text = Inr [] \<Longrightarrow>
    conv_step w source out_name \<lparr>phase = Decoded text, files = fs\<rparr>
      \<lparr>phase = Finished (ConvertAborted IndexPanic), files = fs\<rparr>"
| read_ok: "csv_read_all text = Inr (header # rows) \<Longrightarrow>
    conv_step w source out_name \<lparr>phase = Decoded text, files = fs\<rparr>
      \<lparr>phase = Materializing (parse_struct_tags comune_struct header (map_order0 w) (map_orders w)) rows [],
       files = fs\<rparr>"
| row_fail: "materialize_record cf r = Inl e \<Longrightarrow>
    conv_step w source out_name \<lparr>phase = Materializing cf (r # rows) acc, files = fs\<rparr>
      \<lparr>phase = Finished (ConvertAborted (RowFatal e)), files = fs\<rparr>"
| row_ok: "materialize_record cf r = Inr c \<Longrightarrow>
    conv_step w source out_name \<lparr>phase = Materializing cf (r # rows) acc, files = fs\<rparr>
      \<lparr>phase = Materializing cf rows (acc @ [c]), files = fs\<rparr>"
| marshal_fail: "json_marshal acc = Inl e \<Longrightarrow>
    conv_step w source out_name \<lparr>phase = Materializing cf [] acc, files = fs\<rparr>
      \<lparr>phase = Finished (LogFatal (CantProcess source)), files = fs\<rparr>"
| marshal_ok: "json_marshal acc = Inr j \<Longrightarrow>
    conv_step w source out_name \<lparr>phase = Materializing cf [] acc, files = fs\<rparr> \<lparr>phase = Marshalled j, files = fs\<rparr>"
| create_fail: "create_file w out_name = Some e \<Longrightarrow>
    conv_step w source out_name \<lparr>phase = Marshalled j, files = fs\<rparr>
      \<lparr>phase = Finished (LogFatal (CantProcess source)), files = fs\<rparr>"
| create_ok: "create_file w out_name = None \<Longrightarrow>
    conv_step w source out_name \<lparr>phase = Marshalled j, files = fs\<rparr>
      \<lparr>phase = Created j, files = fs(out_name \<mapsto> [])\<rparr>"
| write_fail: "write_file w out_name j = Some e \<Longrightarrow> k \<le> length j \<Longrightarrow>
    conv_step w source out_name \<lparr>phase = Created j, files = fs\<rparr>
      \<lparr>phase = Finished (LogFatal (CantProcess source)), files = fs(out_name \<mapsto> take k j)\<rparr>"
| write_ok: "write_file w out_name j = None \<Longrightarrow>
    conv_step w source out_name \<lparr>phase = Created j, files = fs\<rparr>
      \<lparr>phase = Finished (WroteJson out_name j), files = fs(out_name \<mapsto> j)\<rparr>"

text \<open>
  What the rest of a run computes from a phase: the records of the decoded
  text, of the remaining rows, and the JSON text of the whole conversion.
\<close>

definition rows_result :: "csv_fields \<Rightarrow> string list list \<Rightarrow> go_object list \<Rightarrow> convert_error + go_object list" where
  "rows_result cf rows acc = map_sum RowFatal id (materialize_records cf rows acc)"

definition decoded_result :: "world \<Rightarrow> bytes \<Rightarrow> convert_error + go_object list" where
  "decoded_result w text =
     (case csv_read_all text of
        Inl e \<Rightarrow> Inl (CsvFatal e)
      | Inr [] \<Rightarrow> Inl IndexPanic
      | Inr (header # rows) \<Rightarrow>
          rows_result (parse_struct_tags comune_struct header (map_order0 w) (map_orders w)) rows [])"

definition conv_json :: "world \<Rightarrow> bytes \<Rightarrow> bytes option" where
  "conv_json w data =
     (case do_convert (detector w) comune_struct (map_order0 w) (map_orders w) data of
        Inl _ \<Rightarrow> None
      | Inr cs \<Rightarrow> (case json_marshal cs of Inl _ \<Rightarrow> None | Inr j \<Rightarrow> Some j))"

text \<open>
  The invariant of a run of \<open>doConvert(source, out_name)\<close> on \<open>data\<close> that starts
  with the files \<open>fs\<close>: each phase holds what the code has computed by then,
  the files are untouched until the output file is created, and a finished
  run has the outcome of \<open>run_convert\<close>.
\<close>

definition conv_inv :: "world \<Rightarrow> string \<Rightarrow> bytes \<Rightarrow> file_store \<Rightarrow> string \<Rightarrow> conv_state \<Rightarrow> bool" where
  "conv_inv w source data fs out_name s \<longleftrightarrow>
     (case phase s of
        Acquired d \<Rightarrow> d = data \<and> files s = fs
      | Decoded text \<Rightarrow>
          files s = fs \<and> do_convert (detector w) comune_struct (map_order0 w) (map_orders w) data = decoded_result w text
      | Materializing cf rows acc \<Rightarrow>
          files s = fs \<and> do_convert (detector w) comune_struct (map_order0 w) (map_orders w) data = rows_result cf rows acc
      | Marshalled j \<Rightarrow> files s = fs \<and> conv_json w data = Some j
      | Created j \<Rightarrow> files s = fs(out_name \<mapsto> []) \<and> conv_json w data = Some j \<and> create_file w out_name = None
      | Finished oc \<Rightarrow>
          oc = run_convert w source data out_name \<and>
          (files s = fs \<or> (\<exists>j. conv_json w data = Some j \<and> (\<exists>k\<le>length j. files s = fs(out_name \<mapsto> take k j)))))"

text \<open>
  A world for concrete runs: the source is read, every file can be created,
  and every write fails as on a full disk.  The input is a header-only CSV text
  padded by a comment line to the 1024 bytes the encoding detection needs.
\<close>

abbreviation disk_full_world :: world where
  "disk_full_world \<equiv>
     \<lparr>http_get = \<lambda>_ _. Inl ''offline'', read_file = \<lambda>_. Inl ''no such file'', create_file = \<lambda>_. None,
      write_file = \<lambda>_ _. Some ''no space left on device'', detector = \<lambda>b. (\<lambda>x. x, ''utf-8'', True),
      map_order0 = [(''A'', 0)], map_orders = \<lambda>_. [(''A'', 0)]\<rparr>"

abbreviation header_only_csv :: bytes where
  "header_only_csv \<equiv> ''A'' @ CHR 0x0A # CHR ''#'' # replicate 1100 (CHR ''x'')"

section \<open>Properties\<close>

lemma do_convert_decoded:
  "do_convert (detector w) comune_struct (map_order0 w) (map_orders w) data =
     (case determine_encoding_from_reader (detector w) data of
        Inl err \<Rightarrow> Inl (EncodingPanic err)
      | Inr (dec, _, _) \<Rightarrow> decoded_result w (dec data))"
  by (simp add: do_convert_def decoded_result_def rows_result_def split: sum.split list.split)

lemma run_convert_result:
  "run_convert w source data out_name =
     (case do_convert (detector w) comune_struct (map_order0 w) (map_orders w) data of
        Inl e \<Rightarrow> ConvertAborted e
      | Inr cs \<Rightarrow>
          (case json_marshal cs of
             Inl _ \<Rightarrow> LogFatal (CantProcess source)
           | Inr j \<Rightarrow>
               (case create_file w out_name of
                  Some _ \<Rightarrow> LogFatal (CantProcess source)
                | None \<Rightarrow>
                    (case write_file w out_name j of
                       Some _ \<Rightarrow> LogFatal (CantProcess source)
                     | None \<Rightarrow> WroteJson out_name j))))"
  by (simp add: run_convert_def)

lemma conv_json_Some:
  "conv_json w data = Some j \<longleftrightarrow>
     (\<exists>cs. do_convert (detector w) comune_struct (map_order0 w) (map_orders w) data = Inr cs \<and> json_marshal cs = Inr j)"
  by (auto simp: conv_json_def split: sum.splits)

lemma conv_inv_init: "conv_inv w source data fs out_name (conv_init data fs)"
  by (simp add: conv_inv_def conv_init_def)

lemma conv_inv_step:
  assumes "conv_step w source out_name s t" and "conv_inv w source data fs out_name s"
  shows "conv_inv w source data fs out_name t"
  using assms
proof (induction rule: conv_step.induct)
  case (detect_ok data' dec name certain fs')
  then show ?case by (simp add: conv_inv_def do_convert_decoded)
next
  case (row_fail cf r e rows acc fs')
  then show ?case by (simp add: conv_inv_def run_convert_result rows_result_def)
next
  case (row_ok cf r c rows acc fs')
  then show ?case by (simp add: conv_inv_def rows_result_def)
next
  case (marshal_fail acc e cf fs')
  then show ?case by (simp add: conv_inv_def run_convert_result rows_result_def)
next
  case (marshal_ok acc j cf fs')
  then show ?case by (simp add: conv_inv_def conv_json_def rows_result_def)
next
  case (create_fail e j fs')
  then show ?case by (auto simp: conv_inv_def run_convert_result conv_json_Some)
next
  case (write_fail j e k fs')
  then show ?case by (auto simp: conv_inv_def run_convert_result conv_json_Some)
next
  case (write_ok j fs')
  then show ?case
    by (auto simp: conv_inv_def run_convert_result conv_json_Some) (metis order_refl take_all)
qed (auto simp: conv_inv_def run_convert_result do_convert_decoded decoded_result_def
    split: sum.splits prod.splits)

lemma conv_reachable_inv:
  "(conv_step w source out_name)\<^sup>*\<^sup>* (conv_init data fs) s \<Longrightarrow> conv_inv w source data fs out_name s"
  by (induction rule: rtranclp_induct) (auto intro: conv_inv_init conv_inv_step)

lemma disk_full_created:
  "(conv_step disk_full_world ''comuni.csv'' ''comuni.json'')\<^sup>*\<^sup>* (conv_init header_only_csv Map.empty)
     \<lparr>phase = Created ''[]'', files = [''comuni.json'' \<mapsto> []]\<rparr>"
proof -
  have "determine_encoding_from_reader (detector disk_full_world) header_only_csv = Inr (\<lambda>x. x, ''utf-8'', True)"
    by (simp add: determine_encoding_from_reader_def peek_def default_buf_size_def)
  note s1 = conv_step.detect_ok [OF this, of "''comuni.csv''" "''comuni.json''" Map.empty]
  have "csv_read_all header_only_csv = Inr [[''A'']]" by (simp add: padded_eval)
  note s2 = conv_step.read_ok [OF this, of disk_full_world "''comuni.csv''" "''comuni.json''" Map.empty]
  have "json_marshal [] = Inr ''[]''" by (simp add: json_marshal_def)
  note s3 = conv_step.marshal_ok [OF this, of disk_full_world "''comuni.csv''" "''comuni.json''"]
  have "create_file disk_full_world ''comuni.json'' = None" by simp
  note s4 = conv_step.create_ok [OF this, of "''comuni.csv''" "''[]''" Map.empty]
  from s1 s2 s3 s4 show ?thesis
    unfolding conv_init_def by (meson r_into_rtranclp rtranclp.rtrancl_into_rtrancl)
qed

lemma conv_files_changed:
  assumes "(conv_step w source out_name)\<^sup>*\<^sup>* (conv_init data fs) s" and "files s \<noteq> fs"
  shows "\<exists>j. conv_json w data = Some j \<and> (\<exists>k\<le>length j. files s = fs(out_name \<mapsto> take k j))"
proof -
  have inv: "conv_inv w source data fs out_name s" by (rule conv_reachable_inv [OF assms(1)])
  show ?thesis
  proof (cases "phase s")
    case (Created j)
    then show ?thesis using inv by (auto simp: conv_inv_def intro: exI [of _ 0])
  next
    case (Finished oc)
    then show ?thesis using inv assms(2) by (simp add: conv_inv_def)
  qed (use inv assms(2) in \<open>simp_all add: conv_inv_def\<close>)
qed

lemma disk_full_truncated:
  "(conv_step disk_full_world ''comuni.csv'' ''comuni.json'')\<^sup>*\<^sup>* (conv_init header_only_csv Map.empty)
     \<lparr>phase = Finished (LogFatal (CantProcess ''comuni.csv'')), files = [''comuni.json'' \<mapsto> ''['']\<rparr>"
proof -
  have "conv_step disk_full_world ''comuni.csv'' ''comuni.json''
      \<lparr>phase = Created ''[]'', files = [''comuni.json'' \<mapsto> []]\<rparr>
      \<lparr>phase = Finished (LogFatal (CantProcess ''comuni.csv'')),
       files = [''comuni.json'' \<mapsto> []](''comuni.json'' \<mapsto> take 1 ''[]'')\<rparr>"
    by (rule conv_step.write_fail) simp_all
  then show ?thesis using disk_full_created by (simp add: rtranclp.rtrancl_into_rtrancl)
qed

subsection \<open>Main properties of a conversion run\<close>

text \<open>
  C27: no output before the conversion is complete: a reachable state whose
  files differ from those the run started with comes after the whole input
  converted and encoded, and then only the output file has changed, to a
  prefix of the complete JSON text.
\<close>

theorem conv_output_after_conversion:
  assumes "(conv_step w source out_name)\<^sup>*\<^sup>* (conv_init data fs) s" and "files s \<noteq> fs"
  shows "\<exists>cs j. do_convert (detector w) comune_struct (map_order0 w) (map_orders w) data = Inr cs \<and>
           json_marshal cs = Inr j \<and> (\<exists>k\<le>length j. files s = fs(out_name \<mapsto> take k j))"
  using conv_files_changed [OF assms] by (auto simp: conv_json_Some)

subsection \<open>Witnesses\<close>

theorem conv_output_after_conversion_witness:
  "(conv_step disk_full_world ''comuni.csv'' ''comuni.json'')\<^sup>*\<^sup>* (conv_init header_only_csv Map.empty)
     \<lparr>phase = Created ''[]'', files = [''comuni.json'' \<mapsto> []]\<rparr> \<and>
   [''comuni.json'' \<mapsto> []] \<noteq> Map.empty \<and>
   (\<exists>cs j. do_convert (detector disk_full_world) comune_struct (map_order0 disk_full_world)
        (map_orders disk_full_world) header_only_csv = Inr cs \<and>
      json_marshal cs = Inr j \<and> (\<exists>k\<le>length j. [''comuni.json'' \<mapsto> []] = Map.empty(''comuni.json'' \<mapsto> take k j)))"
proof -
  have ne: "[''comuni.json'' \<mapsto> []] \<noteq> (Map.empty :: file_store)" by (simp add: fun_eq_iff)
  then have "files \<lparr>phase = Created ''[]'', files = [''comuni.json'' \<mapsto> []]\<rparr> \<noteq> Map.empty" by simp
  from conv_output_after_conversion [OF disk_full_created this] show ?thesis
    using disk_full_created ne by simp
qed

end
