(* ===== verification/Example.thy ===== *)
theory Example
  imports Json
begin

text \<open>
  The example reader \<open>src/example/example.go\<close>: it reads the JSON file named by
  its first argument, decodes it into \<open>[]comuni.Comune\<close> and prints one line per
  comune with \<open>fmt.Printf("%30s  ISTAT:%s %-30s %-4s %-3s\n", ...)\<close>.  Opening and
  reading the file are I/O, a parameter of the model; \<open>json.Unmarshal\<close> is
  \<open>json_unmarshal\<close> of the theory \<open>Json\<close>.  \<open>fmt\<close> pads a \<open>%Ns\<close> operand with spaces to a width
  counted in runes (\<open>utf8.RuneCountInString\<close>), on the left, or on the right with
  the \<open>-\<close> flag; a wider operand is printed whole.
\<close>

text \<open>\<open>utf8.RuneCountInString\<close>.\<close>

definition rune_count :: "bytes \<Rightarrow> nat" where
  "rune_count s = length (utf8_runes s)"

text \<open>\<open>%Ns\<close> and \<open>%-Ns\<close> (\<open>fmt.padString\<close>).\<close>

definition fmt_pad_left :: "nat \<Rightarrow> bytes \<Rightarrow> bytes" where
  "fmt_pad_left w s = replicate (w - rune_count s) (CHR '' '') @ s"

definition fmt_pad_right :: "nat \<Rightarrow> bytes \<Rightarrow> bytes" where
  "fmt_pad_right w s = s @ replicate (w - rune_count s) (CHR '' '')"

text \<open>A string field of a decoded \<open>Comune\<close>; a field the JSON lacks keeps \<open>""\<close>.\<close>

definition string_field :: "go_object \<Rightarrow> string \<Rightarrow> string" where
  "string_field c name = (case map_of c name of Some (GoString s) \<Rightarrow> s | _ \<Rightarrow> [])"

text \<open>The \<open>Printf\<close> of one comune (lines 31--33).\<close>

definition format_comune :: "go_object \<Rightarrow> bytes" where
  "format_comune c =
     fmt_pad_left 30 (string_field c ''Denominazione'') @ ''  ISTAT:'' @ string_field c ''CodiceComune''
     @ '' '' @ fmt_pad_right 30 (string_field c ''DenominazioneRegione'')
     @ '' '' @ fmt_pad_right 4 (string_field c ''CodiceProvincia'')
     @ '' '' @ fmt_pad_right 3 (string_field c ''SiglaAutomobilistica'') @ [CHR 0x0A]"

datatype example_error = ArgsIndexPanic | CantOpenFile string | CantUnmarshal json_error

text \<open>
  \<open>main\<close> of the example for \<open>os.Args\<close> and the contents of a file (or the error
  of opening or reading it): \<open>os.Args[1]\<close> panics without an
  argument, the errors end in \<open>log.Fatalf\<close>, and the output is what is printed.
\<close>

definition example_main ::
  "string list \<Rightarrow> (string \<Rightarrow> string + bytes) \<Rightarrow> example_error + bytes" where
  "example_main os_args read_file =
     (if length os_args < 2 then Inl ArgsIndexPanic
      else
        (case read_file (os_args ! 1) of
           Inl err \<Rightarrow> Inl (CantOpenFile err)
         | Inr data \<Rightarrow>
             (case json_unmarshal data of
                Inl err \<Rightarrow> Inl (CantUnmarshal err)
              | Inr comuni_slice \<Rightarrow> Inr (concat (map format_comune comuni_slice)))))"

section \<open>Properties\<close>

lemma utf8_runes_spaces: "utf8_runes (replicate k (CHR '' '') @ s) = replicate k 32 @ utf8_runes s"
  by (induction k) (simp_all add: rune_self_def)

lemma rune_count_fmt_pad_left: "rune_count (fmt_pad_left w s) = max w (rune_count s)"
  by (simp add: fmt_pad_left_def rune_count_def utf8_runes_spaces)

lemma rune_count_fmt_pad_right: "rune_count (fmt_pad_right w s) = max w (rune_count s)"
proof -
  have "utf8_runes (s @ replicate k (CHR '' '')) = utf8_runes s @ replicate k 32" for k
    using utf8_runes_append_ascii [of "replicate k (CHR '' '')" s] utf8_runes_spaces [of k "[]"]
    by (cases k) simp_all
  then show ?thesis by (simp add: fmt_pad_right_def rune_count_def)
qed

subsection \<open>Main property of the example\<close>

text \<open>
  C21: column alignment.  In the line printed for a comune, the text
  \<open>"  ISTAT:"\<close> starts at rune 30 when the name has at most 30 runes, and right
  after the name otherwise, whatever bytes the fields hold: \<open>%30s\<close> pads by
  runes, not bytes.
\<close>

theorem istat_marker_position:
  "take 8 (drop (max 30 (rune_count (string_field c ''Denominazione''))) (utf8_runes (format_comune c)))
     = map byte_val ''  ISTAT:''"
proof -
  define name where "name = string_field c ''Denominazione''"
  define rest where "rest = string_field c ''CodiceComune''
     @ '' '' @ fmt_pad_right 30 (string_field c ''DenominazioneRegione'')
     @ '' '' @ fmt_pad_right 4 (string_field c ''CodiceProvincia'')
     @ '' '' @ fmt_pad_right 3 (string_field c ''SiglaAutomobilistica'') @ [CHR 0x0A]"
  have line: "format_comune c = fmt_pad_left 30 name @ (''  ISTAT:'' @ rest)"
    by (simp add: format_comune_def name_def rest_def)
  have "utf8_runes (format_comune c) = utf8_runes (fmt_pad_left 30 name) @ utf8_runes (''  ISTAT:'' @ rest)"
    unfolding line by (rule utf8_runes_append_ascii) simp
  also have "utf8_runes (''  ISTAT:'' @ rest) = map byte_val ''  ISTAT:'' @ utf8_runes rest"
    by (rule utf8_runes_ascii_prefix) simp
  finally have "utf8_runes (format_comune c) =
      utf8_runes (fmt_pad_left 30 name) @ map byte_val ''  ISTAT:'' @ utf8_runes rest" .
  moreover have "length (utf8_runes (fmt_pad_left 30 name)) = max 30 (rune_count name)"
    using rune_count_fmt_pad_left [of 30 name] by (simp add: rune_count_def)
  ultimately show ?thesis by (simp add: name_def)
qed

end
