(* ===== verification/JsonRoundtrip.thy ===== *)
theory JsonRoundtrip
  imports Json
begin

text \<open>
  The example reads back what the converter writes: \<open>json.Unmarshal\<close> of the
  output of \<open>json.Marshal\<close> is the list of records of the \<open>Comune\<close> layout
  with their strings coerced to valid UTF-8 (\<open>sanitize_object\<close>), which is
  the list itself when the strings are valid.  The proof follows the two
  layers of the encoding: the text of every value, member and element parses
  back to its JSON tree whatever follows it (\<open>parses_as\<close>), and the tree
  decodes to the record, each key naming its own field.
\<close>

definition parses_as :: "bytes \<Rightarrow> json \<Rightarrow> bool" where
  "parses_as e j \<longleftrightarrow> (\<forall>d rest. d \<in> {CHR '','', CHR ''}'', CHR '']''} \<longrightarrow>
      jparse PValue (e @ d # rest) = Some (Inr (j, d # rest)))"

definition member_text :: "string \<times> bytes \<times> json \<Rightarrow> bytes" where
  "member_text kej = (case kej of (k, e, j) \<Rightarrow> json_quote k @ CHR '':'' # e)"

definition object_members :: "go_object \<Rightarrow> (string \<times> bytes \<times> json) list" where
  "object_members c = map (\<lambda>(n, v). (json_key n, projr (json_value v), json_of_value (sanitize_value v))) c"

definition object_text :: "go_object \<Rightarrow> bytes" where
  "object_text c = CHR ''{'' # comma_join (map member_text (object_members c)) @ ''}''"

definition marshallable :: "go_object \<Rightarrow> bool" where
  "marshallable c \<longleftrightarrow> list_all (value_encodes \<circ> snd) c \<and> (\<forall>(n, v) \<in> set c. valid_utf8 (json_key n))"

definition encodable :: "go_object \<Rightarrow> bool" where
  "encodable c \<longleftrightarrow> list_all (value_ok \<circ> snd) c \<and> (\<forall>(n, v) \<in> set c. valid_utf8 (json_key n))"

section \<open>Encoded values parse back\<close>

lemma int_dec_head: "int_dec x \<noteq> [] \<and> (hd (int_dec x) = CHR ''-'' \<or> is_digit (hd (int_dec x)))"
  using nat_dec_digits [of "nat x"] nat_dec_digits [of "nat (- x)"]
  by (cases "nat_dec (nat x)") (auto simp: int_dec_def)

lemma jparse_int_dec:
  assumes "d \<in> {CHR '','', CHR ''}'', CHR '']''}"
  shows "jparse PValue (int_dec x @ d # rest) = Some (Inr (JNumber (int_dec x), d # rest))"
proof -
  obtain c cs where cs: "int_dec x = c # cs" using int_dec_head [of x] by (cases "int_dec x") auto
  have c: "c = CHR ''-'' \<or> is_digit c" using int_dec_head [of x] cs by simp
  then have nc: "c \<notin> {CHR '' '', CHR 0x09, CHR 0x0A, CHR 0x0D, CHR ''{'', CHR ''['', CHR 0x22, CHR ''t'', CHR ''f'', CHR ''n''}"
    by (auto simp: is_digit_def)
  have "scan_number (int_dec x @ d # rest) = Some (int_dec x, d # rest)"
    using assms by (intro scan_number_int_dec) (auto simp: is_digit_def)
  then have "jscalar (c # cs @ d # rest) = Inr (JNumber (c # cs), d # rest)"
    using nc cs by (simp add: jscalar_def)
  then show ?thesis using nc cs by (simp add: jparse_PValue)
qed

lemma jparse_value:
  assumes "value_encodes v" and "json_value v = Inr e" and "d \<in> {CHR '','', CHR ''}'', CHR '']''}"
  shows "jparse PValue (e @ d # rest) = Some (Inr (json_of_value (sanitize_value v), d # rest))"
proof (cases v)
  case (GoString s)
  have "json_unquote (json_string_body s @ CHR 0x22 # d # rest) = Some (utf8_sanitize s, d # rest)"
    by (rule json_unquote_string_body_sanitize)
  moreover have "e = json_quote s" using assms(2) GoString by simp
  ultimately show ?thesis using GoString
    by (simp add: jparse_PValue jscalar_def json_quote_def del: json_unquote.simps)
next
  case (GoBool b)
  then show ?thesis using assms(2) by (cases b) (auto simp: jparse_PValue jscalar_def)
next
  case (GoInt32 w)
  then show ?thesis using assms(2,3) jparse_int_dec by auto
next
  case (GoInt64 w)
  then show ?thesis using assms(2,3) jparse_int_dec by auto
next
  case (GoZero t)
  then show ?thesis using assms(1) by simp
qed

lemma jparse_member_step:
  assumes "valid_utf8 k" and "parses_as e j" and "d \<in> {CHR '','', CHR ''}''}"
  shows "jparse (PMembers acc) (json_quote k @ CHR '':'' # e @ d # r) =
    (if d = CHR '','' then jparse (PMembers (acc @ [(k, j)])) r else Some (Inr (JObject (acc @ [(k, j)]), r)))"
proof -
  have u: "json_unquote (json_string_body k @ CHR 0x22 # CHR '':'' # e @ d # r) = Some (k, CHR '':'' # e @ d # r)"
    by (rule json_unquote_string_body [OF assms(1)])
  have v: "jparse PValue (e @ d # r) = Some (Inr (j, d # r))" using assms(2,3) by (auto simp: parses_as_def)
  show ?thesis
    by (subst jparse_PMembers) (use u v assms(3) in \<open>auto simp: json_quote_def simp del: json_unquote.simps\<close>)
qed

lemma member_text_simp: "member_text (k, e, j) = json_quote k @ CHR '':'' # e"
  by (simp add: member_text_def)

lemma jparse_members:
  assumes "l \<noteq> []" and "\<forall>(k, e, j) \<in> set l. valid_utf8 k \<and> parses_as e j"
  shows "jparse (PMembers acc) (comma_join (map member_text l) @ CHR ''}'' # rest) =
    Some (Inr (JObject (acc @ map (\<lambda>(k, e, j). (k, j)) l), rest))"
  using assms
proof (induction l arbitrary: acc rule: induct_list012)
  case 1
  then show ?case by simp
next
  case (2 b)
  obtain k e j where b: "b = (k, e, j)" by (cases b) auto
  have kv: "valid_utf8 k" "parses_as e j" using 2 b by auto
  show ?case using jparse_member_step [OF kv, of "CHR ''}''" acc rest] b
    by (simp add: member_text_simp del: json_unquote.simps)
next
  case (3 b b' bs)
  obtain k e j where b: "b = (k, e, j)" by (cases b) auto
  have "jparse (PMembers (acc @ [(k, j)])) (comma_join (map member_text (b' # bs)) @ CHR ''}'' # rest) =
      Some (Inr (JObject ((acc @ [(k, j)]) @ map (\<lambda>(k, e, j). (k, j)) (b' # bs)), rest))"
    using 3 by simp
  moreover have kv: "valid_utf8 k" "parses_as e j" using 3 b by auto
  ultimately show ?case using jparse_member_step [OF kv, of "CHR '',''" acc] b
    by (simp add: member_text_simp del: json_unquote.simps)
qed

lemma jparse_elems:
  assumes "l \<noteq> []" and "\<forall>(e, j) \<in> set l. parses_as e j"
  shows "jparse (PElems acc) (comma_join (map fst l) @ CHR '']'' # rest) =
    Some (Inr (JArray (acc @ map snd l), rest))"
  using assms
proof (induction l arbitrary: acc rule: induct_list012)
  case 1
  then show ?case by simp
next
  case (2 b)
  obtain e j where b: "b = (e, j)" by (cases b) auto
  have pe: "parses_as e j" using 2 b by auto
  have "jparse PValue (e @ CHR '']'' # rest) = Some (Inr (j, CHR '']'' # rest))"
    using pe unfolding parses_as_def by blast
  then show ?case using b by (simp add: jparse_PElems)
next
  case (3 b b' bs)
  obtain e j where b: "b = (e, j)" by (cases b) auto
  have IH: "jparse (PElems (acc @ [j])) (comma_join (map fst (b' # bs)) @ CHR '']'' # rest) =
      Some (Inr (JArray ((acc @ [j]) @ map snd (b' # bs)), rest))"
    using 3 b by simp
  have pe: "parses_as e j" using 3 b by auto
  have "jparse PValue (e @ CHR '','' # x) = Some (Inr (j, CHR '','' # x))" for x
    using pe unfolding parses_as_def by blast
  then show ?case using b IH by (simp add: jparse_PElems)
qed

lemma json_value_ok: "value_encodes v \<Longrightarrow> json_value v = Inr (projr (json_value v))"
  by (cases v) simp_all

lemma value_ok_encodes: "value_ok v \<Longrightarrow> value_encodes v"
  by (cases v) simp_all

lemma json_value_parses:
  "value_encodes v \<Longrightarrow> parses_as (projr (json_value v)) (json_of_value (sanitize_value v))"
  unfolding parses_as_def using jparse_value [OF _ json_value_ok] by blast

lemma json_members_text:
  "list_all (value_encodes \<circ> snd) c \<Longrightarrow> json_members c = Inr (map member_text (object_members c))"
proof (induction c)
  case Nil
  then show ?case by (simp add: object_members_def)
next
  case (Cons nv c)
  obtain n v where nv: "nv = (n, v)" by fastforce
  then show ?case using Cons json_value_ok [of v] by (simp add: object_members_def member_text_simp)
qed

lemma member_text_hd: "member_text kej \<noteq> [] \<and> hd (member_text kej) = CHR 0x22"
  by (cases kej) (simp add: member_text_def json_quote_def)

lemma comma_join_hd: "bs \<noteq> [] \<Longrightarrow> (\<forall>b\<in>set bs. b \<noteq> [] \<and> hd b = c) \<Longrightarrow> hd (comma_join bs @ x) = c"
  by (induction bs rule: comma_join.induct) auto

lemma json_object_parses:
  assumes "list_all (value_encodes \<circ> snd) c" and "\<forall>(n, v) \<in> set c. valid_utf8 (json_key n)"
  shows "json_object c = Inr (CHR ''{'' # comma_join (map member_text (object_members c)) @ ''}'')
    \<and> parses_as (CHR ''{'' # comma_join (map member_text (object_members c)) @ ''}'')
        (json_of_object (sanitize_object c))"
proof -
  let ?l = "object_members c"
  have l: "\<forall>(k, e, j) \<in> set ?l. valid_utf8 k \<and> parses_as e j"
    using assms json_value_parses by (fastforce simp: object_members_def list_all_iff)
  have j: "json_of_object (sanitize_object c) = JObject (map (\<lambda>(k, e, j). (k, j)) ?l)"
    by (auto simp: json_of_object_def object_members_def sanitize_object_def)
  have "jparse PValue (CHR ''{'' # comma_join (map member_text ?l) @ CHR ''}'' # d # rest) =
      Some (Inr (json_of_object (sanitize_object c), d # rest))" for d rest
  proof (cases "?l = []")
    case True
    then show ?thesis using j by (simp add: jparse_PValue)
  next
    case False
    have hd: "hd (comma_join (map member_text ?l) @ CHR ''}'' # d # rest) = CHR 0x22"
      using False by (intro comma_join_hd) (auto simp: member_text_hd)
    obtain x xs where x: "comma_join (map member_text ?l) @ CHR ''}'' # d # rest = x # xs"
      using False by (cases "comma_join (map member_text ?l) @ CHR ''}'' # d # rest") auto
    have "x = CHR 0x22" using hd x by simp
    then show ?thesis
      using jparse_members [OF False l, of "[]" "d # rest"] j x by (simp add: jparse_PValue)
  qed
  then show ?thesis using json_members_text [OF assms(1)] by (simp add: json_object_def parses_as_def)
qed

lemma json_objects_text: "list_all marshallable cs \<Longrightarrow> json_objects cs = Inr (map object_text cs)"
  by (induction cs) (auto simp: marshallable_def object_text_def json_object_parses)

lemma encodable_marshallable: "encodable c \<Longrightarrow> marshallable c"
  by (auto simp: encodable_def marshallable_def list_all_iff value_ok_encodes)

lemma json_parse_marshal:
  assumes "list_all marshallable cs"
  shows "json_marshal cs = Inr (CHR ''['' # comma_join (map object_text cs) @ '']'') \<and>
    json_parse (CHR ''['' # comma_join (map object_text cs) @ '']'') =
      Some (Inr (JArray (map (json_of_object \<circ> sanitize_object) cs)))"
proof -
  let ?l = "map (\<lambda>c. (object_text c, json_of_object (sanitize_object c))) cs"
  have m: "json_marshal cs = Inr (CHR ''['' # comma_join (map object_text cs) @ '']'')"
    using json_objects_text [OF assms] by (simp add: json_marshal_def)
  have "jparse PValue (CHR ''['' # comma_join (map object_text cs) @ '']'') =
      Some (Inr (JArray (map (json_of_object \<circ> sanitize_object) cs), []))"
  proof (cases "cs = []")
    case True
    then show ?thesis by (simp add: jparse_PValue)
  next
    case False
    have l: "\<forall>(e, j) \<in> set ?l. parses_as e j"
      using assms json_object_parses by (auto simp: list_all_iff marshallable_def object_text_def)
    have ne: "?l \<noteq> []" using False by simp
    have "hd (comma_join (map object_text cs) @ '']'') = CHR ''{''"
      using False by (intro comma_join_hd) (auto simp: object_text_def)
    moreover obtain x xs where x: "comma_join (map object_text cs) @ '']'' = x # xs"
      using False by (cases "comma_join (map object_text cs) @ '']''") auto
    ultimately have "x = CHR ''{''" by simp
    moreover have "map fst ?l = map object_text cs" "map snd ?l = map (json_of_object \<circ> sanitize_object) cs"
      by (simp_all add: comp_def)
    ultimately show ?thesis
      using jparse_elems [OF ne l, of "[]" "[]"] x by (simp add: jparse_PValue comp_def)
  qed
  then show ?thesis using m by (simp add: json_parse_def)
qed

section \<open>The keys of Comune\<close>

lemma json_keys: "map (\<lambda>f. json_key (field_name f)) comune_struct = map snd comune_json_tags"
  by (simp add: comune_struct_def sf_def json_key_def comune_json_tags_def)

lemma distinct_json_keys: "distinct (map snd comune_json_tags)"
  by (simp add: comune_json_tags_def)

lemma ascii_json_keys: "list_all (list_all (\<lambda>c. byte_val c < 0x80)) (map snd comune_json_tags)"
  by (simp add: comune_json_tags_def)

lemma comune_types: "f \<in> set comune_struct \<Longrightarrow> field_type f \<in> {''string'', ''bool'', ''int32'', ''int'', ''int64''}"
  by (auto simp: comune_struct_def sf_def)

lemma distinct_comune_fields: "distinct (field_names comune_struct)"
  by (simp add: comune_struct_def sf_def field_names_def)

lemma struct_typed_fields:
  "struct_typed st c \<Longrightarrow> (n, v) \<in> set c \<Longrightarrow> \<exists>f \<in> set st. n = field_name f \<and> value_typed (field_type f) v"
  unfolding struct_typed_def by (induction rule: list_all2_induct) auto

lemma find_distinct_key:
  "distinct (map fst xs) \<Longrightarrow> x \<in> set xs \<Longrightarrow> find (\<lambda>(j, _). j = fst x) xs = Some x"
  by (induction xs) (auto simp: case_prod_beta)

lemma lookup_comune_field:
  assumes "f \<in> set comune_struct"
  shows "lookup_json_field (json_key (field_name f)) = Some (field_name f, field_type f)"
proof -
  have "map fst comune_json_fields = map snd comune_json_tags"
    using json_keys by (simp add: comune_json_fields_def comp_def)
  then have "distinct (map fst comune_json_fields)" using distinct_json_keys by simp
  moreover have "(json_key (field_name f), field_name f, field_type f) \<in> set comune_json_fields"
    using assms by (auto simp: comune_json_fields_def)
  ultimately show ?thesis
    using find_distinct_key [of comune_json_fields "(json_key (field_name f), field_name f, field_type f)"]
    by (simp add: lookup_json_field_def)
qed

lemma comune_key_ascii:
  assumes "f \<in> set comune_struct"
  shows "list_all (\<lambda>c. byte_val c < 0x80) (json_key (field_name f))"
proof -
  have "json_key (field_name f) \<in> set (map snd comune_json_tags)"
    using assms json_keys by (metis image_eqI list.set_map)
  then show ?thesis using ascii_json_keys by (auto simp: list_all_iff)
qed

lemma lookup_denominazione: "lookup_json_field ''denominazione'' = Some (''Denominazione'', ''string'')"
proof -
  have "sf ''Denominazione'' ''string'' ''Denominazione (Italiana e straniera)'' \<in> set comune_struct"
    by (simp add: comune_struct_def)
  moreover have "json_key ''Denominazione'' = ''denominazione''"
    by (simp add: json_key_def comune_json_tags_def)
  ultimately show ?thesis using lookup_comune_field by (fastforce simp: sf_def)
qed

section \<open>Decoding stores every field back\<close>

lemma parse_int_int_dec:
  assumes "- (2 ^ 63) \<le> x" and "x < 2 ^ 63"
  shows "parse_int (int_dec x) 64 = (word_of_int x, None)"
proof -
  have "sint (word_of_int x :: 64 word) = x" using assms by (simp add: sint_word_of_int_small)
  then show ?thesis using assms parse_int_ok [of 64 "int_dec x" "word_of_int x"] dec_int_int_dec [of x] by simp
qed

lemma store_field_typed:
  assumes "value_typed t v" and "t \<in> {''string'', ''bool'', ''int32'', ''int'', ''int64''}"
  shows "store_field n t (json_of_value v) obj = Inr (set_field n v obj)"
proof (cases v)
  case (GoInt32 w)
  have b: "- (2 ^ 31) \<le> sint w" "sint w < 2 ^ 31"
    using sint_greater_eq [of w] sint_less [of w] by simp_all
  define v64 where "v64 = (word_of_int (sint w) :: 64 word)"
  have p: "parse_int (int_dec (sint w)) 64 = (v64, None)"
    unfolding v64_def using b by (intro parse_int_int_dec) simp_all
  have sv: "sint v64 = sint w" unfolding v64_def using b by (intro sint_word_of_int_small) simp_all
  then have "sint (scast v64 :: 32 word) = sint w" using b sint_scast_small [of v64] by simp
  then have "scast v64 = w" by (rule signed_word_eqI)
  then show ?thesis using assms GoInt32 p sv b by (simp add: store_field_def)
next
  case (GoInt64 w)
  have p: "parse_int (int_dec (sint w)) 64 = (w, None)"
    using parse_int_int_dec [of "sint w"] sint_greater_eq [of w] sint_less [of w] by simp
  then show ?thesis using assms GoInt64 by (auto simp: store_field_def)
qed (use assms in \<open>auto simp: store_field_def\<close>)

lemma fold_store_members:
  assumes "\<forall>(n, v) \<in> set ps. \<exists>f \<in> set comune_struct. n = field_name f \<and> value_typed (field_type f) v"
  shows "fold_res store_member (map (\<lambda>(n, v). (json_key n, json_of_value v)) ps) obj
    = Inr (foldl (\<lambda>ob (n, v). set_field n v ob) obj ps)"
  using assms
proof (induction ps arbitrary: obj)
  case Nil
  then show ?case by simp
next
  case (Cons nv ps)
  obtain n v where nv: "nv = (n, v)" by fastforce
  obtain f where f: "f \<in> set comune_struct" "n = field_name f" "value_typed (field_type f) v"
    using Cons.prems nv by auto
  have "store_member obj (json_key n, json_of_value v) = Inr (set_field n v obj)"
    using f lookup_comune_field [OF f(1)] store_field_typed [OF f(3) comune_types [OF f(1)]]
    by (simp add: store_member_def)
  then show ?case using Cons nv by simp
qed

lemma foldl_set_field:
  "distinct (map fst ps) \<Longrightarrow> foldl (\<lambda>ob (n, v). set_field n v ob) obj ps
     = map (\<lambda>(n, x). (n, case map_of ps n of Some v \<Rightarrow> v | None \<Rightarrow> x)) obj"
proof (induction ps arbitrary: obj)
  case Nil
  then show ?case by (induction obj) auto
next
  case (Cons nv ps)
  obtain n v where nv: "nv = (n, v)" by fastforce
  have "n \<notin> set (map fst ps)" using Cons.prems nv by simp
  then have "map_of ps n = None" by (simp add: map_of_eq_None_iff)
  then show ?case using Cons nv by (auto simp: set_field_def split: option.splits)
qed

lemma map_by_keys:
  assumes "map fst obj = map fst ps" and "distinct (map fst ps)"
  shows "map (\<lambda>(n, x). (n, case map_of ps n of Some v \<Rightarrow> v | None \<Rightarrow> x)) obj = ps"
proof (rule nth_equalityI)
  have len: "length obj = length ps" using assms(1) by (metis length_map)
  then show "length (map (\<lambda>(n, x). (n, case map_of ps n of Some v \<Rightarrow> v | None \<Rightarrow> x)) obj) = length ps"
    by simp
  fix i assume "i < length (map (\<lambda>(n, x). (n, case map_of ps n of Some v \<Rightarrow> v | None \<Rightarrow> x)) obj)"
  then have i: "i < length ps" using len by simp
  have k: "fst (obj ! i) = fst (ps ! i)" using assms(1) i len by (metis nth_map)
  have "map_of ps (fst (ps ! i)) = Some (snd (ps ! i))"
    using assms(2) i by (intro map_of_is_SomeI) auto
  then show "map (\<lambda>(n, x). (n, case map_of ps n of Some v \<Rightarrow> v | None \<Rightarrow> x)) obj ! i = ps ! i"
    using i len k by (cases "obj ! i") simp
qed

lemma decode_comune_object:
  assumes "struct_typed comune_struct c"
  shows "decode_comune (json_of_object c) = Inr c"
proof -
  have names: "map fst c = field_names comune_struct"
    using assms unfolding struct_typed_def field_names_def by (rule list_all2_names)
  have d: "distinct (map fst c)" using names distinct_comune_fields by simp
  have typed: "\<forall>(n, v) \<in> set c. \<exists>f \<in> set comune_struct. n = field_name f \<and> value_typed (field_type f) v"
    using struct_typed_fields [OF assms] by blast
  have "foldl (\<lambda>ob (n, v). set_field n v ob) (new_struct comune_struct) c =
      map (\<lambda>(n, x). (n, case map_of c n of Some v \<Rightarrow> v | None \<Rightarrow> x)) (new_struct comune_struct)"
    by (rule foldl_set_field [OF d])
  also have "\<dots> = c"
    using map_by_keys [OF _ d, of "new_struct comune_struct"] names by simp
  finally show ?thesis
    using fold_store_members [OF typed, of "new_struct comune_struct"]
    by (simp add: decode_comune_def json_of_object_def)
qed

lemma decode_comuni_array:
  assumes "list_all (struct_typed comune_struct) cs"
  shows "decode_comuni (JArray (map json_of_object cs)) = Inr cs"
proof -
  have "fold_res (\<lambda>acc e. map_sum id (\<lambda>c. acc @ [c]) (decode_comune e)) (map json_of_object cs) acc = Inr (acc @ cs)"
    for acc
    using assms by (induction cs arbitrary: acc) (simp_all add: decode_comune_object)
  then show ?thesis by (simp add: decode_comuni_def)
qed

lemma encodable_comune:
  assumes "struct_typed comune_struct c" and "strings_valid c"
  shows "encodable c"
proof -
  have "value_ok v \<and> valid_utf8 (json_key n)" if nv: "(n, v) \<in> set c" for n v
  proof -
    obtain f where f: "f \<in> set comune_struct" "n = field_name f" "value_typed (field_type f) v"
      using struct_typed_fields [OF assms(1) nv] by blast
    have "value_ok v"
      using f(3) comune_types [OF f(1)] assms(2) nv by (cases v) (auto simp: strings_valid_def list_all_iff)
    moreover have "valid_utf8 (json_key n)" using f comune_key_ascii valid_utf8_ascii by simp
    ultimately show ?thesis ..
  qed
  then show ?thesis by (auto simp: encodable_def list_all_iff)
qed

lemma value_typed_sanitize: "value_typed t (sanitize_value v) = value_typed t v"
  by (cases v) simp_all

lemma struct_typed_sanitize: "struct_typed t c \<Longrightarrow> struct_typed t (sanitize_object c)"
  by (auto simp: struct_typed_def sanitize_object_def list_all2_map2 value_typed_sanitize
      elim!: list_all2_mono)

lemma marshallable_comune:
  assumes "struct_typed comune_struct c"
  shows "marshallable c"
proof -
  have "value_encodes v \<and> valid_utf8 (json_key n)" if nv: "(n, v) \<in> set c" for n v
  proof -
    obtain f where f: "f \<in> set comune_struct" "n = field_name f" "value_typed (field_type f) v"
      using struct_typed_fields [OF assms nv] by blast
    have "value_encodes v" using f(3) comune_types [OF f(1)] by (cases v) auto
    moreover have "valid_utf8 (json_key n)" using f comune_key_ascii valid_utf8_ascii by simp
    ultimately show ?thesis ..
  qed
  then show ?thesis by (auto simp: marshallable_def list_all_iff)
qed

lemma sanitize_object_id: "sanitize_object c = c \<longleftrightarrow> strings_valid c"
proof (induction c)
  case (Cons nv c)
  obtain n v where nv: "nv = (n, v)" by fastforce
  have "sanitize_value v = v \<longleftrightarrow> (case v of GoString s \<Rightarrow> valid_utf8 s | _ \<Rightarrow> True)"
    by (cases v) (simp_all add: utf8_sanitize_id)
  then show ?case using Cons nv by (simp add: sanitize_object_def strings_valid_def)
qed (simp add: sanitize_object_def strings_valid_def)

lemma marshal_text_unmarshal_sanitize:
  assumes "list_all (struct_typed comune_struct) cs"
  shows "json_marshal cs = Inr (CHR ''['' # comma_join (map object_text cs) @ '']'') \<and>
    json_unmarshal (CHR ''['' # comma_join (map object_text cs) @ '']'') = Inr (map sanitize_object cs)"
proof -
  have m: "list_all marshallable cs" using assms marshallable_comune by (auto simp: list_all_iff)
  have t: "list_all (struct_typed comune_struct) (map sanitize_object cs)"
    using assms struct_typed_sanitize by (auto simp: list_all_iff)
  from json_parse_marshal [OF m] decode_comuni_array [OF t] show ?thesis
    by (simp add: json_unmarshal_def)
qed

lemma marshal_text_unmarshal:
  assumes "list_all (struct_typed comune_struct) cs" and "list_all strings_valid cs"
  shows "json_marshal cs = Inr (CHR ''['' # comma_join (map object_text cs) @ '']'') \<and>
    json_unmarshal (CHR ''['' # comma_join (map object_text cs) @ '']'') = Inr cs"
proof -
  have "map sanitize_object cs = cs"
    using assms(2) by (induction cs) (simp_all add: sanitize_object_id)
  then show ?thesis using marshal_text_unmarshal_sanitize [OF assms(1)] by simp
qed

section \<open>Main properties of the JSON round trip\<close>

text \<open>
  C24: the example reads back exactly what the converter writes: for records
  of the \<open>Comune\<close> layout whose string fields hold valid UTF-8, \<open>json.Marshal\<close>
  succeeds and \<open>json.Unmarshal\<close> of its output returns the same records, every
  field with its value, in order.
\<close>

theorem marshal_unmarshal_roundtrip:
  assumes "list_all (struct_typed comune_struct) cs" and "list_all strings_valid cs"
  shows "\<exists>data. json_marshal cs = Inr data \<and> json_unmarshal data = Inr cs"
  using marshal_text_unmarshal [OF assms] by blast

text \<open>
  C25: the round trip coerces strings to valid UTF-8: for records of the
  \<open>Comune\<close> layout whatever bytes their strings hold, \<open>json.Marshal\<close>
  succeeds and \<open>json.Unmarshal\<close> of its output returns the records with every
  byte that starts no valid UTF-8 sequence replaced by the three bytes of
  U+FFFD; so the example reads back exactly the records the converter wrote
  if and only if all their strings are valid UTF-8.
\<close>

theorem invalid_utf8_replaced:
  assumes "list_all (struct_typed comune_struct) cs"
  shows "\<exists>data. json_marshal cs = Inr data \<and> json_unmarshal data = Inr (map sanitize_object cs) \<and>
     (json_unmarshal data = Inr cs \<longleftrightarrow> list_all strings_valid cs)"
proof -
  have "map sanitize_object cs = cs \<longleftrightarrow> list_all strings_valid cs"
    by (induction cs) (simp_all add: sanitize_object_id)
  then show ?thesis using marshal_text_unmarshal_sanitize [OF assms] by auto
qed

subsection \<open>Witnesses\<close>

theorem marshal_unmarshal_roundtrip_witness:
  "\<exists>data. json_marshal [set_field ''Denominazione'' (GoString ''Aosta'') (new_struct comune_struct)] = Inr data \<and>
     json_unmarshal data = Inr [set_field ''Denominazione'' (GoString ''Aosta'') (new_struct comune_struct)]"
proof -
  let ?c = "set_field ''Denominazione'' (GoString ''Aosta'') (new_struct comune_struct)"
  have f: "sf ''Denominazione'' ''string'' ''Denominazione (Italiana e straniera)'' \<in> set comune_struct"
    by (simp add: comune_struct_def)
  have "struct_typed comune_struct ?c"
    using struct_typed_set_field [OF struct_typed_new_struct distinct_comune_fields f] by (simp add: sf_def)
  moreover have "strings_valid ?c"
    by (simp add: strings_valid_def set_field_def new_struct_def comune_struct_def sf_def zero_value_def
        rune_self_def rune_error_def)
  ultimately show ?thesis using marshal_unmarshal_roundtrip [of "[?c]"] by simp
qed

theorem invalid_utf8_replaced_witness:
  "list_all (struct_typed comune_struct) [set_field ''Denominazione'' (GoString [CHR 0xE0, CHR ''x'']) (new_struct comune_struct)] \<and>
   (\<exists>data. json_marshal [set_field ''Denominazione'' (GoString [CHR 0xE0, CHR ''x'']) (new_struct comune_struct)] = Inr data \<and>
     json_unmarshal data = Inr [set_field ''Denominazione'' (GoString [CHR 0xEF, CHR 0xBF, CHR 0xBD, CHR ''x''])
       (new_struct comune_struct)] \<and>
     json_unmarshal data \<noteq> Inr [set_field ''Denominazione'' (GoString [CHR 0xE0, CHR ''x'']) (new_struct comune_struct)])"
proof -
  let ?c = "set_field ''Denominazione'' (GoString [CHR 0xE0, CHR ''x'']) (new_struct comune_struct)"
  have f: "sf ''Denominazione'' ''string'' ''Denominazione (Italiana e straniera)'' \<in> set comune_struct"
    by (simp add: comune_struct_def)
  have t: "list_all (struct_typed comune_struct) [?c]"
    using struct_typed_set_field [OF struct_typed_new_struct distinct_comune_fields f] by (simp add: sf_def)
  have s: "map sanitize_object [?c] =
      [set_field ''Denominazione'' (GoString [CHR 0xEF, CHR 0xBF, CHR 0xBD, CHR ''x'']) (new_struct comune_struct)]"
    by (simp add: sanitize_object_def set_field_def new_struct_def comune_struct_def sf_def zero_value_def
        go_eval encode_rune_replacement [unfolded rune_error_def])
  have v: "\<not> list_all strings_valid [?c]"
    by (simp add: strings_valid_def set_field_def new_struct_def comune_struct_def sf_def zero_value_def go_eval)
  show ?thesis using t invalid_utf8_replaced [OF t] s v by auto
qed

end
