(* ===== verification/JsonPrefix.thy ===== *)
theory JsonPrefix
  imports JsonRoundtrip
begin

text \<open>
  A truncated output of \<open>json.Marshal\<close> is never accepted by \<open>json.Unmarshal\<close>.
  When \<open>doConvert\<close>'s \<open>Write\<close> fails part-way, the output file holds a strict
  prefix of the JSON text; this theory shows that the example's decoder
  rejects every such prefix with a syntax error, so a partial file is never
  read as a shorter list of records.  The proof follows the layers of the
  text: a prefix of an escaped string never closes the string, a prefix of a
  value parses to an error or to a value that no delimiter follows, and a
  prefix of an object or an array never reaches its closing bracket.
\<close>

text \<open>
  The result of parsing a cut text where a value was expected: an error, or a
  value that is not followed by a separator or a closing bracket, so that the
  enclosing object or array fails.
\<close>

definition cut_ok :: "(json_error + json \<times> bytes) option \<Rightarrow> bool" where
  "cut_ok res \<longleftrightarrow> res = Some (Inl SyntaxError) \<or>
     (\<exists>v r. res = Some (Inr (v, r)) \<and> (skip_ws r = [] \<or> hd (skip_ws r) \<notin> {CHR '','', CHR '']'', CHR ''}''}))"

definition prefix_safe :: "bytes \<Rightarrow> bool" where
  "prefix_safe e \<longleftrightarrow> (\<forall>k\<le>length e. cut_ok (jparse PValue (take k e)))"

section \<open>Cut strings\<close>

lemma json_unquote_quote_free: "CHR 0x22 \<notin> set x \<Longrightarrow> json_unquote x = None"
proof (induction x rule: json_unquote.induct)
  case (2 c cs)
  have "CHR 0x22 \<notin> set (drop n (c # cs))" for n using 2(2) by (meson in_set_dropD)
  then show ?case using 2 by (auto split: option.splits)
qed simp

lemma json_unquote_piece:
  assumes st: "\<And>x. \<exists>out. unquote_step (e @ x) = Some (out, length e)" and ne: "e \<noteq> []" "hd e \<noteq> CHR 0x22"
    and short: "\<And>m. m < length e \<Longrightarrow> json_unquote (take m e) = None"
    and rest: "\<And>m. json_unquote (take m B) = None"
  shows "json_unquote (take m (e @ B)) = None"
proof (cases "m \<le> length e")
  case True
  show ?thesis
  proof (cases "m = length e")
    case True
    obtain out where "unquote_step (e @ []) = Some (out, length e)" using st by blast
    from json_unquote_step [OF this ne] True show ?thesis by simp
  qed (use True short in simp)
next
  case False
  obtain out where "unquote_step (e @ take (m - length e) B) = Some (out, length e)" using st by blast
  from json_unquote_step [OF this ne] False rest [of "m - length e"] show ?thesis by simp
qed

lemma json_unquote_u_escape_cut:
  assumes "length hs = 4" and "m < 6"
  shows "json_unquote (take m (CHR 0x5C # CHR ''u'' # hs)) = None"
proof -
  obtain a b c d where hs: "hs = [a, b, c, d]"
    using assms(1) by (cases hs rule: rev_cases; auto simp: numeral_eq_Suc length_Suc_conv)
  have "m = 0 \<or> m = 1 \<or> m = 2 \<or> m = 3 \<or> m = 4 \<or> m = 5" using assms(2) by arith
  then show ?thesis by (auto simp: hs unquote_step_def)
qed

lemma escape_ascii_shape:
  "(\<exists>y. escape_ascii c = [CHR 0x5C, y]) \<or>
   escape_ascii c = CHR 0x5C # CHR ''u'' # [CHR ''0'', CHR ''0'', hex_digit (byte_val c div 16), hex_digit (byte_val c mod 16)]"
  by (simp add: escape_ascii_def)

lemma json_unquote_backslash: "json_unquote [CHR 0x5C] = None"
  by (simp add: unquote_step_def)

lemma json_unquote_escape_ascii_cut:
  assumes "m < length (escape_ascii c)"
  shows "json_unquote (take m (escape_ascii c)) = None"
  using escape_ascii_shape [of c]
proof
  assume "\<exists>y. escape_ascii c = [CHR 0x5C, y]"
  then obtain y where e: "escape_ascii c = [CHR 0x5C, y]" by blast
  then have "m = 0 \<or> m = 1" using assms by auto
  then show ?thesis using e json_unquote_backslash by auto
next
  assume e: "escape_ascii c = CHR 0x5C # CHR ''u'' # [CHR ''0'', CHR ''0'', hex_digit (byte_val c div 16), hex_digit (byte_val c mod 16)]"
  show ?thesis unfolding e by (rule json_unquote_u_escape_cut) (use assms e in simp_all)
qed

lemma json_unquote_body_cut: "json_unquote (take m (json_string_body s)) = None"
proof (induction s arbitrary: m rule: json_string_body.induct)
  case 1
  then show ?case by simp
next
  case (2 c cs)
  show ?case
  proof (cases "byte_val c < rune_self")
    case True
    let ?e = "if html_safe c then [c] else escape_ascii c"
    have eq: "json_string_body (c # cs) = ?e @ json_string_body cs" using True by simp
    show ?thesis unfolding eq
    proof (rule json_unquote_piece)
      show "\<exists>out. unquote_step (?e @ x) = Some (out, length ?e)" for x
        using True unquote_step_safe [of c x] unquote_step_escape [of c x] by (auto simp: rune_self_def)
      show "?e \<noteq> []" "hd ?e \<noteq> CHR 0x22" by (auto simp: escape_ascii_def html_safe_def)
      show "json_unquote (take k ?e) = None" if "k < length ?e" for k
        using that json_unquote_escape_ascii_cut [of k c] by (cases "html_safe c") auto
      show "json_unquote (take k (json_string_body cs)) = None" for k using 2(1) [OF True] .
    qed
  next
    case False
    obtain r n where dec: "decode_rune (c # cs) = (r, n)" by fastforce
    have IH: "json_unquote (take k (json_string_body (drop n (c # cs)))) = None" for k
      using 2(2) [OF False dec [symmetric] refl] .
    consider (bad) "r = rune_error \<and> n = 1" | (sep) "\<not> (r = rune_error \<and> n = 1)" "r = 0x2028 \<or> r = 0x2029"
      | (rune) "\<not> (r = rune_error \<and> n = 1)" "\<not> (r = 0x2028 \<or> r = 0x2029)"
      by blast
    then show ?thesis
    proof cases
      case bad
      let ?e = "[CHR 0x5C, CHR ''u'', CHR ''f'', CHR ''f'', CHR ''f'', CHR ''d'']"
      have eq: "json_string_body (c # cs) = ?e @ json_string_body (drop n (c # cs))"
        using False dec bad by simp
      show ?thesis unfolding eq
      proof (rule json_unquote_piece [OF _ _ _ _ IH])
        show "\<exists>out. unquote_step (?e @ x) = Some (out, length ?e)" for x
          using unquote_step_replacement_escape by blast
        show "json_unquote (take k ?e) = None" if "k < length ?e" for k
          using that json_unquote_u_escape_cut [of "[CHR ''f'', CHR ''f'', CHR ''f'', CHR ''d'']" k] by simp
      qed simp_all
    next
      case sep
      let ?e = "[CHR 0x5C, CHR ''u'', CHR ''2'', CHR ''0'', CHR ''2'', hex_digit (r mod 16)]"
      have eq: "json_string_body (c # cs) = ?e @ json_string_body (drop n (c # cs))"
        using False dec sep by simp
      show ?thesis unfolding eq
      proof (rule json_unquote_piece [OF _ _ _ _ IH])
        show "\<exists>out. unquote_step (?e @ x) = Some (out, length ?e)" for x
          using unquote_step_line_sep [OF dec sep] by blast
        show "json_unquote (take k ?e) = None" if "k < length ?e" for k
          using that json_unquote_u_escape_cut [of "[CHR ''2'', CHR ''0'', CHR ''2'', hex_digit (r mod 16)]" k]
          by simp
      qed simp_all
    next
      case rune
      let ?e = "take n (c # cs)"
      have eq: "json_string_body (c # cs) = ?e @ json_string_body (drop n (c # cs))"
        using False dec rune by simp
      have hi: "list_all (\<lambda>b. 0x80 \<le> byte_val b) ?e"
        using decode_rune_bytes_high [OF dec _ False] rune by blast
      have w: "0 < n" using decode_rune_width [OF dec] by simp
      show ?thesis unfolding eq
      proof (rule json_unquote_piece [OF _ _ _ _ IH])
        show "\<exists>out. unquote_step (?e @ x) = Some (out, length ?e)" for x
          using unquote_step_rune [OF dec rune(1) False, of x] decode_rune_width [OF dec] by auto
        show "?e \<noteq> []" using w by simp
        show "hd ?e \<noteq> CHR 0x22" using w False by (auto simp: rune_self_def)
        show "json_unquote (take k ?e) = None" for k
        proof (rule json_unquote_quote_free)
          show "CHR 0x22 \<notin> set (take k ?e)"
          proof
            assume "CHR 0x22 \<in> set (take k ?e)"
            then have "CHR 0x22 \<in> set ?e" by (rule in_set_takeD)
            then show False using hi unfolding list_all_iff by fastforce
          qed
        qed
      qed
    qed
  qed
qed

section \<open>Cut values\<close>

lemma jparse_empty: "jparse PValue [] = Some (Inl SyntaxError)"
  by (simp add: jparse_PValue)

lemma prefix_safe_upt:
  "prefix_safe e \<longleftrightarrow> list_all (\<lambda>k. cut_ok (jparse PValue (take k e))) [0..<Suc (length e)]"
  by (auto simp: prefix_safe_def list_all_iff)

lemma cut_ok_error: "cut_ok (Some (Inl SyntaxError))"
  by (simp add: cut_ok_def)

lemma cut_okE:
  assumes "cut_ok res"
  obtains "res = Some (Inl SyntaxError)"
    | v r where "res = Some (Inr (v, r))" and "skip_ws r = []"
    | v r f r' where "res = Some (Inr (v, r))" and "skip_ws r = f # r'" and "f \<notin> {CHR '','', CHR '']'', CHR ''}''}"
  using assms unfolding cut_ok_def by (metis list.collapse)

lemma prefix_safe_quote:
  assumes "valid_utf8 s"
  shows "prefix_safe (json_quote s)"
  unfolding prefix_safe_def
proof (intro allI impI)
  fix k
  assume k: "k \<le> length (json_quote s)"
  let ?b = "json_string_body s"
  consider (z) "k = 0" | (inside) i where "k = Suc i" "i \<le> length ?b" | (full) "k = length (json_quote s)"
    using k by (cases k) (auto simp: json_quote_def le_Suc_eq)
  then show "cut_ok (jparse PValue (take k (json_quote s)))"
  proof cases
    case z
    then show ?thesis by (simp add: jparse_empty cut_ok_error)
  next
    case inside
    have "take k (json_quote s) = CHR 0x22 # take i ?b"
      using inside by (simp add: json_quote_def)
    moreover have "json_unquote (take i ?b) = None" by (rule json_unquote_body_cut)
    ultimately show ?thesis
      by (simp add: jparse_PValue jscalar_def cut_ok_def del: json_unquote.simps)
  next
    case full
    have "json_unquote (?b @ [CHR 0x22]) = Some (s, [])"
      using json_unquote_string_body [OF assms, of "[]"] by simp
    then show ?thesis using full
      by (simp add: jparse_PValue jscalar_def cut_ok_def json_quote_def del: json_unquote.simps)
  qed
qed

lemma cut_ok_number:
  assumes "p \<noteq> []" and "\<forall>c\<in>set p. is_digit c \<or> c = CHR ''-''"
  shows "cut_ok (jparse PValue p)"
proof -
  obtain c cs where p: "p = c # cs" using assms(1) by (cases p) auto
  have c: "c \<notin> {CHR '' '', CHR 0x09, CHR 0x0A, CHR 0x0D, CHR ''{'', CHR ''['', CHR 0x22, CHR ''t'', CHR ''f'', CHR ''n''}"
    using assms(2) p by (auto simp: is_digit_def)
  show ?thesis
  proof (cases "scan_number p")
    case None
    then show ?thesis using c p by (simp add: jparse_PValue jscalar_def cut_ok_def)
  next
    case (Some lr)
    obtain lit r where lr: "lr = (lit, r)" by fastforce
    have "lit @ r = p" using scan_number_split Some lr by blast
    then have r: "\<forall>c\<in>set r. is_digit c \<or> c = CHR ''-''" using assms(2) by auto
    have "skip_ws r = [] \<or> hd (skip_ws r) \<notin> {CHR '','', CHR '']'', CHR ''}''}"
    proof (cases r)
      case (Cons d ds)
      then have "d \<notin> {CHR '' '', CHR 0x09, CHR 0x0A, CHR 0x0D, CHR '','', CHR '']'', CHR ''}''}"
        using r by (auto simp: is_digit_def)
      then show ?thesis using Cons by simp
    qed simp
    then show ?thesis using c p Some lr by (simp add: jparse_PValue jscalar_def cut_ok_def)
  qed
qed

lemma prefix_safe_int_dec: "prefix_safe (int_dec x)"
  unfolding prefix_safe_def
proof (intro allI impI)
  fix k
  have "\<forall>c\<in>set (int_dec x). is_digit c \<or> c = CHR ''-''"
    using nat_dec_digits [of "nat x"] nat_dec_digits [of "nat (- x)"]
    by (auto simp: int_dec_def list_all_iff)
  then have digits: "\<forall>c\<in>set (take k (int_dec x)). is_digit c \<or> c = CHR ''-''" by (auto dest: in_set_takeD)
  show "cut_ok (jparse PValue (take k (int_dec x)))"
  proof (cases "take k (int_dec x) = []")
    case True
    then show ?thesis by (simp only: jparse_empty cut_ok_error)
  next
    case False
    then show ?thesis by (rule cut_ok_number [OF _ digits])
  qed
qed

lemma prefix_safe_bool: "prefix_safe ''true''" "prefix_safe ''false''"
  by (simp_all add: prefix_safe_upt upt_rec jparse_PValue jscalar_def cut_ok_def scan_number_def
      scan_unsigned_def is_digit_def)

lemma prefix_safe_value:
  "value_ok v \<Longrightarrow> json_value v = Inr e \<Longrightarrow> prefix_safe e"
  by (cases v) (auto simp: prefix_safe_quote prefix_safe_int_dec prefix_safe_bool)

section \<open>Cut objects and arrays\<close>

lemma hd_take_nonempty: "0 < i \<Longrightarrow> xs \<noteq> [] \<Longrightarrow> take i xs \<noteq> [] \<and> hd (take i xs) = hd xs"
  by (cases xs; cases i) auto

lemma take_after:
  assumes "length X < m"
  shows "take m (X @ d # R) = X @ d # take (m - Suc (length X)) R"
proof -
  have "m - length X = Suc (m - Suc (length X))" using assms by arith
  then show ?thesis by (simp add: take_append)
qed

lemma members_key_cut:
  assumes "valid_utf8 k" and "m \<le> length (json_quote k)"
  shows "jparse (PMembers acc) (take m (json_quote k)) = Some (Inl SyntaxError)"
proof -
  let ?b = "json_string_body k"
  consider (z) "m = 0" | (inside) i where "m = Suc i" "i \<le> length ?b" | (full) "m = length (json_quote k)"
    using assms(2) by (cases m) (auto simp: json_quote_def le_Suc_eq)
  then show ?thesis
  proof cases
    case z
    then show ?thesis by (simp add: jparse_PMembers)
  next
    case inside
    have "take m (json_quote k) = CHR 0x22 # take i ?b" using inside by (simp add: json_quote_def)
    moreover have "json_unquote (take i ?b) = None" by (rule json_unquote_body_cut)
    ultimately show ?thesis by (simp add: jparse_PMembers del: json_unquote.simps)
  next
    case full
    have "json_unquote (?b @ [CHR 0x22]) = Some (k, [])"
      using json_unquote_string_body [OF assms(1), of "[]"] by simp
    then show ?thesis using full by (simp add: jparse_PMembers json_quote_def del: json_unquote.simps)
  qed
qed

lemma members_after_key:
  assumes "valid_utf8 k" and cut: "cut_ok (jparse PValue p)"
  shows "jparse (PMembers acc) (json_quote k @ CHR '':'' # p) = Some (Inl SyntaxError)"
proof -
  have u: "json_unquote (json_string_body k @ CHR 0x22 # CHR '':'' # p) = Some (k, CHR '':'' # p)"
    by (rule json_unquote_string_body [OF assms(1)])
  from cut show ?thesis
  proof (cases rule: cut_okE)
    case 1
    then show ?thesis using u by (simp add: jparse_PMembers json_quote_def del: json_unquote.simps)
  next
    case (2 v r)
    then show ?thesis using u by (simp add: jparse_PMembers json_quote_def del: json_unquote.simps)
  next
    case (3 v r f r')
    then show ?thesis using u by (simp add: jparse_PMembers json_quote_def del: json_unquote.simps)
  qed
qed

lemma member_cut:
  assumes "valid_utf8 k" and "prefix_safe e" and "m \<le> length (member_text (k, e, j))"
  shows "jparse (PMembers acc) (take m (member_text (k, e, j) @ x)) = Some (Inl SyntaxError)"
proof (cases "m \<le> length (json_quote k)")
  case True
  then have "take m (member_text (k, e, j) @ x) = take m (json_quote k)" by (simp add: member_text_simp)
  then show ?thesis using members_key_cut [OF assms(1) True] by simp
next
  case False
  define i where "i = m - Suc (length (json_quote k))"
  have i: "i \<le> length e" using assms(3) False by (simp add: member_text_simp i_def)
  have "m = length (json_quote k) + Suc i" using False by (simp add: i_def)
  then have "take m (member_text (k, e, j) @ x) = json_quote k @ CHR '':'' # take i e"
    using i by (simp add: member_text_simp)
  moreover have "cut_ok (jparse PValue (take i e))" using assms(2) i by (simp add: prefix_safe_def)
  ultimately show ?thesis using members_after_key [OF assms(1)] by simp
qed

lemma members_cut:
  assumes "l \<noteq> []" and "\<forall>(k, e, j) \<in> set l. valid_utf8 k \<and> parses_as e j \<and> prefix_safe e"
    and "m < length (comma_join (map member_text l) @ ''}'')"
  shows "jparse (PMembers acc) (take m (comma_join (map member_text l) @ ''}'')) = Some (Inl SyntaxError)"
  using assms
proof (induction l arbitrary: acc m rule: induct_list012)
  case 1
  then show ?case by simp
next
  case (2 b)
  obtain k e j where b: "b = (k, e, j)" by (cases b) auto
  have kv: "valid_utf8 k" "prefix_safe e" using 2 b by auto
  show ?case using member_cut [OF kv, of m j acc "''}''"] 2(3) b by simp
next
  case (3 b b' bs)
  obtain k e j where b: "b = (k, e, j)" by (cases b) auto
  have kv: "valid_utf8 k" "parses_as e j" "prefix_safe e" using 3 b by auto
  let ?rest = "comma_join (map member_text (b' # bs)) @ ''}''"
  have eq: "comma_join (map member_text (b # b' # bs)) @ ''}'' = member_text (k, e, j) @ CHR '','' # ?rest"
    using b by simp
  show ?case
  proof (cases "m \<le> length (member_text (k, e, j))")
    case True
    then show ?thesis using member_cut [OF kv(1,3) True, of acc "CHR '','' # ?rest"] eq by simp
  next
    case False
    define i where "i = m - Suc (length (member_text (k, e, j)))"
    have i: "i < length ?rest" using 3(5) False eq by (simp add: i_def)
    have "take m (member_text (k, e, j) @ CHR '','' # ?rest) = member_text (k, e, j) @ CHR '','' # take i ?rest"
      using False unfolding i_def by (intro take_after) simp
    then have "take m (member_text (k, e, j) @ CHR '','' # ?rest) = json_quote k @ CHR '':'' # e @ CHR '','' # take i ?rest"
      by (simp add: member_text_simp)
    moreover have "jparse (PMembers (acc @ [(k, j)])) (take i ?rest) = Some (Inl SyntaxError)"
      using 3(2) [where acc = "acc @ [(k, j)]" and m = i] 3(4) i by simp
    ultimately show ?thesis
      using eq jparse_member_step [OF kv(1,2), of "CHR '',''" acc "take i ?rest"] by (simp del: json_unquote.simps)
  qed
qed

lemma object_cut:
  assumes l: "\<forall>(k, e, j) \<in> set l. valid_utf8 k \<and> parses_as e j \<and> prefix_safe e"
    and m: "m < length (CHR ''{'' # comma_join (map member_text l) @ ''}'')"
  shows "jparse PValue (take m (CHR ''{'' # comma_join (map member_text l) @ ''}'')) = Some (Inl SyntaxError)"
proof (cases m)
  case 0
  then show ?thesis by (simp add: jparse_empty)
next
  case (Suc i)
  let ?t = "comma_join (map member_text l) @ ''}''"
  show ?thesis
  proof (cases "i = 0")
    case True
    then show ?thesis using Suc by (simp add: jparse_PValue)
  next
    case False
    then have ne: "l \<noteq> []" using m Suc by auto
    have "hd ?t = CHR 0x22" using ne by (intro comma_join_hd) (auto simp: member_text_hd)
    then have t: "take i ?t \<noteq> [] \<and> hd (take i ?t) = CHR 0x22"
      using hd_take_nonempty [of i ?t] False by simp
    then obtain r where r: "take i ?t = CHR 0x22 # r" by (cases "take i ?t") auto
    have "jparse (PMembers []) (take i ?t) = Some (Inl SyntaxError)"
      using members_cut [OF ne l] m Suc by simp
    then show ?thesis using Suc r by (simp add: jparse_PValue)
  qed
qed

lemma prefix_safe_object:
  assumes l: "\<forall>(k, e, j) \<in> set l. valid_utf8 k \<and> parses_as e j \<and> prefix_safe e"
  shows "prefix_safe (CHR ''{'' # comma_join (map member_text l) @ ''}'')"
  unfolding prefix_safe_def
proof (intro allI impI)
  fix m
  let ?o = "CHR ''{'' # comma_join (map member_text l) @ ''}''"
  assume "m \<le> length ?o"
  then consider "m < length ?o" | "m = length ?o" by linarith
  then show "cut_ok (jparse PValue (take m ?o))"
  proof cases
    case 1
    then show ?thesis using object_cut [OF l] cut_ok_error by simp
  next
    case 2
    have "\<exists>v. jparse PValue ?o = Some (Inr (v, []))"
    proof (cases "l = []")
      case True
      then show ?thesis by (simp add: jparse_PValue)
    next
      case False
      have "hd (comma_join (map member_text l) @ ''}'') = CHR 0x22"
        using False by (intro comma_join_hd) (auto simp: member_text_hd)
      then obtain r where r: "comma_join (map member_text l) @ ''}'' = CHR 0x22 # r"
        by (cases "comma_join (map member_text l) @ ''}''") auto
      have lv: "\<forall>(k, e, j) \<in> set l. valid_utf8 k \<and> parses_as e j" using l by auto
      show ?thesis using jparse_members [OF False lv, of "[]" "[]"] r by (simp add: jparse_PValue)
    qed
    then show ?thesis using 2 by (auto simp: cut_ok_def)
  qed
qed

lemma elems_cut_value:
  assumes "cut_ok (jparse PValue p)"
  shows "jparse (PElems acc) p = Some (Inl SyntaxError)"
  using assms by (cases rule: cut_okE) (simp_all add: jparse_PElems)

lemma elems_cut:
  assumes "l \<noteq> []" and "\<forall>(e, j) \<in> set l. parses_as e j \<and> prefix_safe e"
    and "m < length (comma_join (map fst l) @ '']'')"
  shows "jparse (PElems acc) (take m (comma_join (map fst l) @ '']'')) = Some (Inl SyntaxError)"
  using assms
proof (induction l arbitrary: acc m rule: induct_list012)
  case 1
  then show ?case by simp
next
  case (2 b)
  obtain e j where b: "b = (e, j)" by (cases b) auto
  have "m \<le> length e" using 2(3) b by simp
  then have "take m (comma_join (map fst [b]) @ '']'') = take m e" using b by simp
  moreover have "cut_ok (jparse PValue (take m e))"
    using 2(2) b \<open>m \<le> length e\<close> by (auto simp: prefix_safe_def)
  ultimately show ?case using elems_cut_value by simp
next
  case (3 b b' bs)
  obtain e j where b: "b = (e, j)" by (cases b) auto
  have pe: "parses_as e j" "prefix_safe e" using 3(4) b by auto
  let ?rest = "comma_join (map fst (b' # bs)) @ '']''"
  have eq: "comma_join (map fst (b # b' # bs)) @ '']'' = e @ CHR '','' # ?rest" using b by simp
  show ?case
  proof (cases "m \<le> length e")
    case True
    then have "take m (e @ CHR '','' # ?rest) = take m e" by simp
    moreover have "cut_ok (jparse PValue (take m e))" using pe(2) True by (simp add: prefix_safe_def)
    ultimately show ?thesis using eq elems_cut_value by simp
  next
    case False
    define i where "i = m - Suc (length e)"
    have i: "i < length ?rest" using 3(5) False eq by (simp add: i_def)
    have "take m (e @ CHR '','' # ?rest) = e @ CHR '','' # take i ?rest"
      using False unfolding i_def by (intro take_after) simp
    moreover have "jparse PValue (e @ CHR '','' # take i ?rest) = Some (Inr (j, CHR '','' # take i ?rest))"
      using pe(1) unfolding parses_as_def by blast
    moreover have "jparse (PElems (acc @ [j])) (take i ?rest) = Some (Inl SyntaxError)"
      using 3(2) [where acc = "acc @ [j]" and m = i] 3(4) i by simp
    ultimately show ?thesis using eq by (simp add: jparse_PElems)
  qed
qed

lemma array_cut:
  assumes l: "\<forall>(e, j) \<in> set l. parses_as e j \<and> prefix_safe e \<and> e \<noteq> [] \<and> hd e = CHR ''{''"
    and m: "m < length (CHR ''['' # comma_join (map fst l) @ '']'')"
  shows "jparse PValue (take m (CHR ''['' # comma_join (map fst l) @ '']'')) = Some (Inl SyntaxError)"
proof (cases m)
  case 0
  then show ?thesis by (simp add: jparse_empty)
next
  case (Suc i)
  let ?t = "comma_join (map fst l) @ '']''"
  show ?thesis
  proof (cases "i = 0")
    case True
    then show ?thesis using Suc by (simp add: jparse_PValue)
  next
    case False
    then have ne: "l \<noteq> []" using m Suc by auto
    have "hd ?t = CHR ''{''" using ne l by (intro comma_join_hd) auto
    then have "take i ?t \<noteq> [] \<and> hd (take i ?t) = CHR ''{''"
      using hd_take_nonempty [of i ?t] False by simp
    then obtain r where r: "take i ?t = CHR ''{'' # r" by (cases "take i ?t") auto
    have l': "\<forall>(e, j) \<in> set l. parses_as e j \<and> prefix_safe e" using l by auto
    have "jparse (PElems []) (take i ?t) = Some (Inl SyntaxError)"
      using elems_cut [OF ne l'] m Suc by simp
    then show ?thesis using Suc r by (simp add: jparse_PValue)
  qed
qed

lemma encodable_members_cut:
  assumes "encodable c"
  shows "\<forall>(k, e, j) \<in> set (object_members c). valid_utf8 k \<and> parses_as e j \<and> prefix_safe e"
proof -
  have "valid_utf8 (json_key n) \<and> parses_as (projr (json_value v)) (json_of_value (sanitize_value v)) \<and>
      prefix_safe (projr (json_value v))" if "(n, v) \<in> set c" for n v
  proof -
    have ok: "value_ok v" and k: "valid_utf8 (json_key n)"
      using assms that by (auto simp: encodable_def list_all_iff)
    have e: "value_encodes v" by (rule value_ok_encodes [OF ok])
    show ?thesis using k json_value_parses [OF e] prefix_safe_value [OF ok json_value_ok [OF e]] by simp
  qed
  then show ?thesis by (auto simp: object_members_def)
qed

lemma json_unmarshal_cut:
  assumes enc: "list_all encodable cs"
    and k: "k < length (CHR ''['' # comma_join (map object_text cs) @ '']'')"
  shows "json_unmarshal (take k (CHR ''['' # comma_join (map object_text cs) @ '']'')) = Inl SyntaxError"
proof -
  let ?l = "map (\<lambda>c. (object_text c, json_of_object (sanitize_object c))) cs"
  have "parses_as e jo \<and> prefix_safe e \<and> e \<noteq> [] \<and> hd e = CHR ''{''" if "(e, jo) \<in> set ?l" for e jo
  proof -
    from that obtain c where "c \<in> set cs" and "(e, jo) = (object_text c, json_of_object (sanitize_object c))"
      by (auto simp only: set_map image_iff)
    then have c: "c \<in> set cs" "e = object_text c" "jo = json_of_object (sanitize_object c)" by simp_all
    have ec: "encodable c" using enc c(1) by (simp add: list_all_iff)
    then have "parses_as (object_text c) (json_of_object (sanitize_object c))"
      using json_object_parses encodable_marshallable [OF ec] by (auto simp: marshallable_def object_text_def)
    moreover have "prefix_safe (object_text c)"
      unfolding object_text_def by (rule prefix_safe_object [OF encodable_members_cut [OF ec]])
    ultimately show ?thesis using c by (simp add: object_text_def)
  qed
  then have l: "\<forall>(e, jo) \<in> set ?l. parses_as e jo \<and> prefix_safe e \<and> e \<noteq> [] \<and> hd e = CHR ''{''"
    by blast
  have eqm: "map fst ?l = map object_text cs" by (simp add: comp_def)
  have "jparse PValue (take k (CHR ''['' # comma_join (map object_text cs) @ '']'')) = Some (Inl SyntaxError)"
    using array_cut [OF l, of k, unfolded eqm] k by simp
  then show ?thesis by (simp add: json_unmarshal_def json_parse_def)
qed

section \<open>Main property of a cut output\<close>

text \<open>
  C28: \<open>json.Unmarshal\<close> rejects every strict prefix of what \<open>json.Marshal\<close>
  writes for records of the \<open>Comune\<close> layout whose strings are valid UTF-8:
  the decoding is a syntax error, never a shorter list of records, wherever the
  text is cut (inside a key, a string, a number, a literal, between members,
  or just before the closing bracket).
\<close>

theorem truncated_json_rejected:
  assumes "list_all (struct_typed comune_struct) cs" and "list_all strings_valid cs"
    and "json_marshal cs = Inr j" and "k < length j"
  shows "json_unmarshal (take k j) = Inl SyntaxError"
proof -
  have enc: "list_all encodable cs" using assms(1,2) encodable_comune by (auto simp: list_all_iff)
  have "j = CHR ''['' # comma_join (map object_text cs) @ '']''"
    using json_parse_marshal enc encodable_marshallable assms(3) by (simp add: list_all_iff)
  then show ?thesis using json_unmarshal_cut [OF enc] assms(4) by simp
qed

subsection \<open>Witnesses\<close>

theorem truncated_json_rejected_witness:
  "\<exists>j. json_marshal [set_field ''Denominazione'' (GoString ''Aosta'') (new_struct comune_struct)] = Inr j \<and>
     length j - 1 < length j \<and> json_unmarshal (take (length j - 1) j) = Inl SyntaxError"
proof -
  let ?c = "set_field ''Denominazione'' (GoString ''Aosta'') (new_struct comune_struct)"
  have f: "sf ''Denominazione'' ''string'' ''Denominazione (Italiana e straniera)'' \<in> set comune_struct"
    by (simp add: comune_struct_def)
  have t: "list_all (struct_typed comune_struct) [?c]"
    using struct_typed_set_field [OF struct_typed_new_struct distinct_comune_fields f] by (simp add: sf_def)
  have v: "list_all strings_valid [?c]"
    by (simp add: strings_valid_def set_field_def new_struct_def comune_struct_def sf_def zero_value_def
        rune_self_def rune_error_def)
  obtain j where m: "json_marshal [?c] = Inr j" using marshal_text_unmarshal [OF t v] by blast
  then have "j \<noteq> []" using json_parse_marshal [of "[?c]"] t marshallable_comune by auto
  then have k: "length j - 1 < length j" by simp
  show ?thesis using m k truncated_json_rejected [OF t v m k] by blast
qed

end
