(* ===== verification/Spec2Isabelle.thy ===== *)
theory Spec2Isabelle
  imports ConvertRun Example JsonPrefix
begin

text \<open>
  \<^bold>\<open>A verification library for go-comuni-italiani.\<close>  The program converts ISTAT's
  list of Italian municipalities, a semicolon-separated CSV file, into a JSON
  array of \<open>Comune\<close> records (\<open>src/comuni.go\<close>).  \<open>src/cmd/go-comuni/main.go\<close>
  holds all of its logic: \<open>main\<close> parses a subcommand and its flags,
  \<open>handleCmdConvert\<close> fetches or opens the source and calls \<open>doConvert\<close>, which
  detects the encoding (\<open>DetermineEncodingFromReader\<close>), reads the CSV records,
  binds header columns to struct fields (\<open>parseStructTags\<close>) and converts every
  body row into a \<open>Comune\<close> (the row loop, with \<open>parseBoolField\<close>,
  \<open>parseInt32Field\<close>, \<open>parseInt64Field\<close>).  \<open>src/example/example.go\<close> prints
  the JSON back as aligned text.

  \<^bold>\<open>Theories.\<close>
  \<^item> \<open>Prelude\<close>: strings as byte lists (\<open>bytes\<close>), runes as \<open>nat\<close>, results as
    \<open>'e + 'a\<close> with \<open>bind_res\<close> for Go's \<open>if err != nil { return }\<close>, the
    fail-fast loop \<open>fold_res\<close>, and the list lemmas the components share.
  \<^item> \<open>GoStrings\<close>: the parts of Go's \<open>unicode/utf8\<close>, \<open>unicode\<close> and \<open>strings\<close>
    that the code calls (\<open>decode_rune\<close>, \<open>utf8_runes\<close>, \<open>is_space\<close>,
    \<open>to_lower\<close>, \<open>equal_fold\<close>, \<open>trim_space\<close>, \<open>has_suffix\<close>), modelled from the
    library; lemmas: \<open>trim_space\<close> leaves no white space at either end
    (\<open>trim_space_trimmed\<close>), and decoding a concatenation with ASCII.
  \<^item> \<open>Schema\<close>: the \<open>Comune\<close> struct as reflection sees it (\<open>comune_struct\<close>, every
    field with its type name and \<open>csv\<close> tag), struct values as association
    lists, \<open>getField\<close> with its panic.
  \<^item> \<open>Binder\<close>: \<open>parseStructTags\<close>.  The three Go maps of \<open>csvFields\<close> hold
    pointers into an explicit store of \<open>csvFieldEntry\<close> values; Go's map
    iteration order, unspecified and different for every \<open>range\<close>, is an
    argument of the model: an order is any permutation of the map's entries
    (\<open>iteration_order\<close>).  Lemmas: the store invariant \<open>entries_wf\<close> is
    preserved (C4); the binding the row loop reads (\<open>column_binding\<close>) refines
    the specification's ascending-order binder (C1) and does not depend on the
    orders (C2) when tags are unambiguous; when two columns match a tag, some
    orders bind either one (C3); for the header \<open>[A, A]\<close> the last column is
    bound (C18).
  \<^item> \<open>StrConv\<close>: \<open>strconv.ParseBool\<close>, \<open>ParseUint\<close> and \<open>ParseInt\<close> for base 10,
    with the \<open>uint64\<close> accumulator as a wrapping \<open>64 word\<close> and the library's
    overflow tests, and the three field parsers of \<open>main.go\<close>.  Lemmas: each
    integer parser accepts exactly the signed decimal strings in its range and
    returns their value (C5, C6, through \<open>parse_uint_ok\<close> and \<open>parse_int_ok\<close>).
  \<^item> \<open>Materializer\<close>: the row loop of \<open>doConvert\<close> (\<open>convert_cell\<close>,
    \<open>process_cell\<close>, \<open>materialize_record\<close>, \<open>materialize_records\<close>).  Lemmas:
    one record per row in order (C7), fail-fast on the first failing row (C8),
    trimmed string fields (C9), the specification's scenario under every
    iteration order (C10), well-typed records (C22), and two divergences from
    the specification: an unsupported type is reported only from a cell in a
    column bound to it (C11), and a cell padded with white space is stored
    trimmed in a string field but rejected by a bool or integer field (C12).
  \<^item> \<open>Pipeline\<close>: \<open>bufio.Reader.Peek(1024)\<close>, \<open>DetermineEncodingFromReader\<close>,
    \<open>encoding/csv\<close>'s \<open>ReadAll\<close> with \<open>Comma = ';'\<close> and \<open>Comment = '#'\<close> as a
    byte-level automaton (\<open>csv_scan\<close>), and \<open>doConvert\<close> up to the row loop.
    Lemmas: the reader inverts a quoting writer (C13) and returns rectangular
    tables (C14); every input under 1024 bytes panics (C15); the scenario end to
    end (C16); boundary inputs, one without records panicking at
    \<open>records[0]\<close> (C17).
  \<^item> \<open>Cli\<close>: Go's \<open>flag\<close> package for bool and string flags, \<open>main\<close>,
    \<open>handleCmdConvert\<close>, \<open>handleCmdDownload\<close> and \<open>doConvert\<close>'s output step
    (\<open>json.Marshal\<close>, \<open>os.Create\<close>, \<open>Write\<close>), over
    an explicit \<open>world\<close> of network and file results.  Lemmas: how one bool or
    string flag is read, for every flag set (\<open>parse_flags_one_flag\<close>); the
    subcommand dispatch with its flags, for every source, output and operands
    (C19); small local files abort (C20).
  \<^item> \<open>Example\<close>: \<open>example.go\<close>'s \<open>main\<close> and its \<open>Printf\<close> with \<open>fmt\<close>'s rune-counted
    padding, reading the file through \<open>json_unmarshal\<close>; the \<open>ISTAT:\<close>
    marker's column (C21).
  \<^item> \<open>Json\<close>: \<open>encoding/json\<close> as the two programs use it, modelled from the
    library for \<open>[]Comune\<close> and the \<open>json\<close> tags of \<open>src/comuni.go\<close>
    (\<open>comune_json_tags\<close>).  \<open>json.Marshal\<close> is \<open>json_marshal\<close>: \<open>appendString\<close>
    with HTML escaping and U+FFFD for invalid UTF-8 (\<open>json_string_body\<close>),
    \<open>strconv.AppendInt\<close> (\<open>int_dec\<close>), the struct and slice encoders.
    \<open>json.Unmarshal\<close> is \<open>json_unmarshal\<close>: a parser of the scanner's grammar
    (\<open>jparse\<close>, a \<open>partial_function (option)\<close> over the three positions
    value, array elements and object members), \<open>unquote\<close> with surrogate pairs
    (\<open>unquote_step\<close>, \<open>json_unquote\<close>), the field lookup by exact then
    case-folded key, and \<open>literalStore\<close> with \<open>ParseInt\<close> and the \<open>int32\<close>
    range check (\<open>store_field\<close>).  Lemmas: the parser returns on every input
    (\<open>jparse_total_rest\<close>), \<open>unquote\<close> after the encoder is \<open>utf8_sanitize\<close>
    (\<open>json_unquote_string_body_sanitize\<close>), and the text \<open>json.Marshal\<close>
    writes holds no byte below 0x20 and none of \<open><\<close>, \<open>>\<close>, \<open>&\<close> (C23).
  \<^item> \<open>JsonRoundtrip\<close>: the text of every encoded value, member and element
    parses back to its JSON tree whatever follows it (\<open>parses_as\<close>), numbers
    through \<open>int_dec\<close> and \<open>dec_int\<close>, strings through the re-encoding of
    decoded runes (\<open>GoStrings.encode_rune_decode_rune\<close>); the tree decodes to
    the record with its strings passed through \<open>utf8_sanitize\<close>.  Lemmas:
    \<open>json.Unmarshal\<close> inverts \<open>json.Marshal\<close> on typed records with valid
    UTF-8 strings (C24); on any typed records it returns them with every
    invalid byte replaced by U+FFFD, so exactly the valid ones come back
    unchanged (C25).
  \<^item> \<open>ConvertRun\<close>: \<open>doConvert\<close> with its effect on the file system as an
    inductive step relation \<open>conv_step\<close> over a record of the phase and the
    files: detection, read, one step per row, \<open>json.Marshal\<close>, \<open>os.Create\<close>
    and a \<open>Write\<close> that may fail after any prefix of the text.  One invariant,
    proved by rule induction (\<open>conv_reachable_inv\<close>), ties every reachable
    state to \<open>run_convert\<close>: the files change only after the whole input
    converted and encoded, and only the output file, to a prefix of the JSON
    text (C27); on a full disk a run ends with the output file holding the
    truncated text \<open>[\<close> (\<open>disk_full_truncated\<close>).
  \<^item> \<open>JsonPrefix\<close>: cut JSON texts.  A prefix of an escaped string never
    closes it (\<open>json_unquote_body_cut\<close>), a prefix of a value parses to an
    error or to a value no delimiter follows (\<open>prefix_safe\<close>), and a prefix
    of an object or array never reaches its closing bracket.  Lemma:
    \<open>json.Unmarshal\<close> rejects every strict prefix of \<open>json.Marshal\<close>'s output
    with a syntax error (C28).
  \<^item> \<open>Spec2Isabelle\<close> (this theory): the converter and the example together:
    records the row loop produces are typed (C22, in \<open>Materializer\<close>), so
    \<open>convert\<close> writes a JSON text from which the example prints every record
    (C26); whatever a run has left in the output file, the example prints all
    the records or stops with a syntax error, never part of them (C29).

  \<^bold>\<open>Modelling choices.\<close>  Every definition is executable.  Loops are
  structural recursion, or \<open>function\<close>s with a \<open>measure\<close> termination proof
  (\<open>utf8_runes\<close>, \<open>valid_utf8\<close>, \<open>trim_left_space\<close>, \<open>trim_right_space\<close>,
  \<open>csv_scan\<close>, \<open>json_string_body\<close>, \<open>utf8_sanitize\<close>, \<open>json_unquote\<close>); the
  JSON parser, whose recursion switches between positions, is a
  \<open>partial_function (option)\<close> whose \<open>None\<close> would be a parse that does not
  end, and \<open>jparse_total_rest\<close> shows there is none
  (by induction on the length of the input, which every recursive call
  shortens or keeps while moving from a value to its members).  No fuel is
  needed.  \<open>log.Fatalf\<close>, \<open>log.Fatal\<close>, \<open>panic\<close> and \<open>os.Exit\<close> are error values
  (\<open>fatal\<close>, \<open>convert_error\<close>, \<open>outcome\<close>, \<open>example_error\<close>).  Machine
  integers keep their width where overflow matters: \<open>ParseUint\<close>'s accumulator
  wraps as Go's \<open>uint64\<close>, and \<open>int32(value)\<close> is \<open>scast\<close>.  Concrete claims
  evaluate by \<open>simp\<close> with the collections \<open>go_eval\<close>, \<open>binder_eval\<close> and
  \<open>materializer_eval\<close>; a concrete parse evaluates with the congruence
  \<open>bind_weak_cong\<close>, which holds back the parser's continuation until its
  argument is a value.

  \<^bold>\<open>Not modelled.\<close>  \<open>charset.DetermineEncoding\<close> and the decoders of
  \<open>golang.org/x/text\<close> (a parameter, the detector); HTTP, TLS and the file
  system (the \<open>world\<close>, which gives the result of each request, open, create and
  write; the bytes of the source are the input, so the error of
  \<open>ioutil.ReadAll\<close> at the start of \<open>doConvert\<close> is not a branch of the model);
  \<open>encoding/json\<close> for types other than \<open>[]Comune\<close> (floats,
  maps, pointers, embedded structs, \<open>omitempty\<close>), the text of its error
  messages and the offset of a \<open>SyntaxError\<close>; the decoder's reuse of an
  existing slice (the example decodes into an empty one); the text of log
  messages and of \<open>flag\<close>'s usage output; the line and column of
  \<open>csv.ParseError\<close>; Unicode case folding outside ASCII, Latin-1 and the runes
  whose folding orbit meets Latin-1 (other runes are treated as caseless).
\<close>

lemma comune_field_names: "\<forall>f\<in>set comune_struct. field_name f \<noteq> []"
  by (simp add: comune_struct_def sf_def)

lemma do_convert_typed:
  assumes enc: "determine_encoding_from_reader (detector w) data = Inr (dec, enc_name, certain)"
    and csv: "csv_read_all (dec data) = Inr (header # rows)"
    and ord0: "iteration_order header (map_order0 w)"
    and ords: "\<forall>k<length comune_struct. iteration_order header (map_orders w k)"
    and conv: "do_convert (detector w) comune_struct (map_order0 w) (map_orders w) data = Inr cs"
  shows "list_all (struct_typed comune_struct) cs"
proof -
  let ?cf = "parse_struct_tags comune_struct header (map_order0 w) (map_orders w)"
  have "map_sum RowFatal id (materialize_records ?cf rows []) = Inr cs"
    using conv enc csv by (simp add: do_convert_def)
  then have "materialize_records ?cf rows [] = Inr cs"
    by (cases "materialize_records ?cf rows []") simp_all
  then have "list_all2 (\<lambda>r c. materialize_record ?cf r = Inr c) rows cs"
    by (simp add: materialize_records_Inr)
  then show ?thesis
    by (induction rule: list_all2_induct)
      (auto intro: materialize_record_typed [OF ord0 ords comune_field_names distinct_comune_fields])
qed

text \<open>
  C26: the two programs together: when \<open>doConvert\<close> converts a CSV input to
  records whose strings are valid UTF-8, under the iteration orders Go may
  choose, and the output file can be created and written, \<open>go-comuni convert\<close> writes a
  JSON text from which the example, run on that file, prints the line of every
  record in order.
\<close>

theorem convert_then_example:
  assumes enc: "determine_encoding_from_reader (detector w) data = Inr (dec, enc_name, certain)"
    and csv: "csv_read_all (dec data) = Inr (header # rows)"
    and ord0: "iteration_order header (map_order0 w)"
    and ords: "\<forall>k<length comune_struct. iteration_order header (map_orders w k)"
    and conv: "do_convert (detector w) comune_struct (map_order0 w) (map_orders w) data = Inr cs"
    and valid: "list_all strings_valid cs"
    and out: "create_file w output = None" and wr: "\<forall>b. write_file w output b = None"
  shows "\<exists>json. run_convert w source data output = WroteJson output json \<and>
           example_main [prog, output] (\<lambda>f. if f = output then Inr json else Inl ''no such file'')
             = Inr (concat (map format_comune cs))"
proof -
  have typed: "list_all (struct_typed comune_struct) cs" by (rule do_convert_typed [OF enc csv ord0 ords conv])
  obtain json where m: "json_marshal cs = Inr json" and u: "json_unmarshal json = Inr cs"
    using marshal_text_unmarshal [OF typed valid] by blast
  have "run_convert w source data output = WroteJson output json"
    using conv m out wr by (simp add: run_convert_def)
  moreover have "example_main [prog, output] (\<lambda>f. if f = output then Inr json else Inl ''no such file'')
      = Inr (concat (map format_comune cs))"
    using u by (simp add: example_main_def)
  ultimately show ?thesis by blast
qed

text \<open>
  C29: the example never reads part of the records: in every state of a
  conversion run whose output file the run has touched, the example run on
  that file prints the line of every record the conversion produced, or stops
  with \<open>can't unmarshal JSON\<close> and a syntax error (when a failing write left a
  truncated text), for records whose strings are valid UTF-8, under the
  iteration orders Go may choose.
\<close>

theorem example_reads_all_or_rejects:
  assumes enc: "determine_encoding_from_reader (detector w) data = Inr (dec, enc_name, certain)"
    and csv: "csv_read_all (dec data) = Inr (header # rows)"
    and ord0: "iteration_order header (map_order0 w)"
    and ords: "\<forall>k<length comune_struct. iteration_order header (map_orders w k)"
    and conv: "do_convert (detector w) comune_struct (map_order0 w) (map_orders w) data = Inr cs"
    and valid: "list_all strings_valid cs"
    and reach: "(conv_step w source out_name)\<^sup>*\<^sup>* (conv_init data fs) s"
    and touched: "files s out_name \<noteq> fs out_name"
  shows "example_main [prog, out_name] (\<lambda>f. case files s f of Some b \<Rightarrow> Inr b | None \<Rightarrow> Inl ''no such file'')
           \<in> {Inr (concat (map format_comune cs)), Inl (CantUnmarshal SyntaxError)}"
proof -
  have typed: "list_all (struct_typed comune_struct) cs" by (rule do_convert_typed [OF enc csv ord0 ords conv])
  have enc': "list_all encodable cs" using typed valid encodable_comune by (auto simp: list_all_iff)
  let ?j = "CHR ''['' # comma_join (map object_text cs) @ '']''"
  have "list_all marshallable cs" using typed marshallable_comune by (auto simp: list_all_iff)
  then have m: "json_marshal cs = Inr ?j" using json_parse_marshal by blast
  have "files s \<noteq> fs" using touched by auto
  from conv_files_changed [OF reach this] obtain j k where
    cj: "conv_json w data = Some j" and k: "k \<le> length j" and fk: "files s = fs(out_name \<mapsto> take k j)"
    by blast
  have j: "j = ?j" using cj conv m by (simp add: conv_json_def)
  show ?thesis
  proof (cases "k = length j")
    case True
    have "json_unmarshal ?j = Inr cs" using marshal_text_unmarshal [OF typed valid] by simp
    then show ?thesis using fk True j by (simp add: example_main_def)
  next
    case False
    then have "json_unmarshal (take k ?j) = Inl SyntaxError"
      using json_unmarshal_cut [OF enc'] k j by simp
    then show ?thesis using fk j by (simp add: example_main_def)
  qed
qed

subsection \<open>Witnesses\<close>

theorem convert_then_example_witness:
  "\<exists>json. run_convert
       \<lparr>http_get = \<lambda>_ _. Inl ''offline'', read_file = \<lambda>_. Inl ''no such file'', create_file = \<lambda>_. None, write_file = \<lambda>_ _. None,
        detector = \<lambda>b. (\<lambda>x. x, ''utf-8'', True), map_order0 = [(''A'', 0)], map_orders = \<lambda>_. [(''A'', 0)]\<rparr>
       ''comuni.csv'' (''A'' @ CHR 0x0A # CHR ''#'' # replicate 1100 (CHR ''x'')) ''comuni.json''
       = WroteJson ''comuni.json'' json \<and>
     example_main [''example'', ''comuni.json''] (\<lambda>f. if f = ''comuni.json'' then Inr json else Inl ''no such file'')
       = Inr []"
proof -
  let ?w = "\<lparr>http_get = \<lambda>_ _. Inl ''offline'', read_file = \<lambda>_. Inl ''no such file'', create_file = \<lambda>_. None, write_file = \<lambda>_ _. None,
        detector = \<lambda>b. (\<lambda>x. x, ''utf-8'', True), map_order0 = [(''A'', 0)], map_orders = \<lambda>_. [(''A'', 0)]\<rparr>"
  let ?d = "''A'' @ CHR 0x0A # CHR ''#'' # replicate 1100 (CHR ''x'')"
  have enc: "determine_encoding_from_reader (detector ?w) ?d = Inr (\<lambda>x. x, ''utf-8'', True)"
    by (simp add: determine_encoding_from_reader_def peek_def default_buf_size_def)
  have csv: "csv_read_all ((\<lambda>x. x) ?d) = Inr [[''A'']]"
    by (simp add: padded_eval)
  have ord: "iteration_order [''A''] [(''A'', 0)]"
    by (simp add: iteration_order_def header_entries_def)
  have conv: "do_convert (detector ?w) comune_struct (map_order0 ?w) (map_orders ?w) ?d = Inr []"
    using enc csv by (simp add: do_convert_def)
  show ?thesis
    using convert_then_example [OF _ _ _ _ conv, of "\<lambda>x. x" "''utf-8''" True "[''A'']" "[]" "''comuni.json''"
        "''comuni.csv''" "''example''"] enc csv ord
    by simp
qed

theorem example_reads_all_or_rejects_witness:
  "example_main [''example'', ''comuni.json'']
     (\<lambda>f. case [''comuni.json'' \<mapsto> ''[''] f of Some b \<Rightarrow> Inr b | None \<Rightarrow> Inl ''no such file'')
   \<in> {Inr (concat (map format_comune [])), Inl (CantUnmarshal SyntaxError)}"
proof -
  have enc: "determine_encoding_from_reader (detector disk_full_world) header_only_csv = Inr (\<lambda>x. x, ''utf-8'', True)"
    by (simp add: determine_encoding_from_reader_def peek_def default_buf_size_def)
  have csv: "csv_read_all ((\<lambda>x. x) header_only_csv) = Inr [[''A'']]"
    by (simp add: padded_eval)
  have ord: "iteration_order [''A''] [(''A'', 0)]"
    by (simp add: iteration_order_def header_entries_def)
  have conv: "do_convert (detector disk_full_world) comune_struct (map_order0 disk_full_world)
      (map_orders disk_full_world) header_only_csv = Inr []"
    using enc csv by (simp add: do_convert_def)
  have touched: "files \<lparr>phase = Finished (LogFatal (CantProcess ''comuni.csv'')), files = [''comuni.json'' \<mapsto> ''['']\<rparr>
      ''comuni.json'' \<noteq> Map.empty ''comuni.json''" by simp
  show ?thesis
    using example_reads_all_or_rejects [OF enc csv _ _ conv _ disk_full_truncated touched, of "''example''"] ord
    by simp
qed

end
